theory Spec2Isabelle
  imports Main
begin


section \<open>Data model\<close>

text \<open>
  The inventory engine of \<^verbatim>\<open>src/lib/function.js\<close> (the version that threads an explicit
  inventory through every call) and the vault pass of \<^verbatim>\<open>src/lib/bw.js\<close>.

  JavaScript values that a parsed JSON document can hold, plus \<open>JUndefined\<close>, which never
  stands inside a parsed document but is what \<^verbatim>\<open>Array.prototype.find\<close> and a read of a
  missing property give.  Strings are ASCII, numbers are integers.
\<close>

datatype json =
    JUndefined
  | JNull
  | JBool bool
  | JNum int
  | JStr string
  | JArr "json list"
  | JObj "(string \<times> json) list"

text \<open>
  What the code throws.  The source raises \<^verbatim>\<open>Error\<close> with a message; each message is a
  constructor.  \<open>RangeError\<close> is what \<^verbatim>\<open>BigInt(NaN)\<close> and \<^verbatim>\<open>Array(-1)\<close> throw,
  \<open>TypeError\<close> what a property read on \<^verbatim>\<open>undefined\<close> or \<^verbatim>\<open>null\<close> and the
  \<^verbatim>\<open>in\<close> operator on a primitive throw.
\<close>

datatype error =
    UnknownType string
  | NoAvailableVmid string
  | NetworkNotFound string
  | InvalidStaticRange string
  | InvalidIpVersion
  | StartGreaterThanEnd
  | NoAvailableIp string
  | FailedToLoadInventory
  | RangeError
  | TypeError

text \<open>
  The inventory, field by field as the schema of \<^verbatim>\<open>loadInventory\<close> and the readers in
  \<^verbatim>\<open>getNextIpAddress\<close> name them.  \<open>reserved\<close> is optional in memory
  (\<^verbatim>\<open>if (!inventory.reserved)\<close>); a missing \<^verbatim>\<open>hosts\<close> or \<^verbatim>\<open>interfaces\<close> reads as
  the empty list (\<^verbatim>\<open>inventory.hosts || []\<close>).
\<close>

record iface =
  network :: string
  iface_ip :: string

record host =
  host_name :: string
  host_vmid :: int
  host_type :: string
  interfaces :: "iface list"

record template =
  template_name :: string
  template_version :: string
  template_vmid :: int

record static_range =
  range_start :: string
  range_end :: string

record network_cfg =
  name :: string
  subnet :: string
  gateway :: string
  dns :: string
  static_range :: static_range

record reserved_vmid =
  vmid :: int
  refId :: string

record reserved_ip =
  ip :: string
  ip_refId :: string

record reservations =
  vmids :: "reserved_vmid list"
  ips :: "reserved_ip list"

record inventory =
  proxmox :: json
  terraform :: json
  networks :: "network_cfg list"
  hosts :: "host list"
  templates :: "template list"
  reserved :: "reservations option"

section \<open>VM identifiers\<close>

text \<open>
  \<^verbatim>\<open>ranges[type]\<close> reads a property of an object literal: one of the four own keys, a
  key inherited from \<^verbatim>\<open>Object.prototype\<close> (a function or object: truthy, and its
  \<^verbatim>\<open>[0]\<close> is undefined), or nothing.
\<close>

definition object_prototype_keys :: "string list" where
  "object_prototype_keys =
     [''constructor'', ''__defineGetter__'', ''__defineSetter__'', ''hasOwnProperty'',
      ''__lookupGetter__'', ''__lookupSetter__'', ''isPrototypeOf'', ''propertyIsEnumerable'',
      ''toString'', ''valueOf'', ''__proto__'', ''toLocaleString'']"

datatype range_lookup = OwnRange int int | Inherited | Missing

definition ranges :: "string \<Rightarrow> range_lookup" where
  "ranges type =
     (if type = ''baremetal'' then OwnRange 0 99
      else if type = ''vm'' then OwnRange 100 199
      else if type = ''lxc'' then OwnRange 200 299
      else if type = ''template'' then OwnRange 300 399
      else if type \<in> set object_prototype_keys then Inherited
      else Missing)"

text \<open>
  \<^verbatim>\<open>for (let id = lo; id <= hi; id++) if (!used.has(id)) return id;\<close>  The same loop
  scans VM identifiers and, over \<^verbatim>\<open>BigInt\<close>, addresses.  \<open>None\<close>: the loop ran out.
\<close>

function scan_range :: "int list \<Rightarrow> int \<Rightarrow> int \<Rightarrow> int option" where
  "scan_range used i hi =
     (if i \<le> hi then (if i \<notin> set used then Some i else scan_range used (i + 1) hi)
      else None)"
  by pat_completeness auto
termination
  by (relation "measure (\<lambda>(used, i, hi). nat (hi + 1 - i))") auto

declare scan_range.simps [simp del]

definition getNextVmId :: "string \<Rightarrow> inventory \<Rightarrow> error + int" where
  "getNextVmId type inventory =
     (case ranges type of
        Missing \<Rightarrow> Inl (UnknownType type)
      | rng \<Rightarrow>
          (case reserved inventory of
             None \<Rightarrow> Inl TypeError
           | Some res \<Rightarrow>
               (let used = map template_vmid (templates inventory) @ map vmid (vmids res)
                in case rng of
                     OwnRange lo hi \<Rightarrow>
                       (case scan_range used lo hi of
                          Some i \<Rightarrow> Inr i
                        | None \<Rightarrow> Inl (NoAvailableVmid type))
                   | _ \<Rightarrow> Inl (NoAvailableVmid type))))"

text \<open>
  The ledger.  Each operation returns what the call returns or throws, and the inventory
  object as the call leaves it (the source mutates it in place, also before a throw).
\<close>

definition init_reserved :: "inventory \<Rightarrow> inventory" where
  "init_reserved inventory =
     (case reserved inventory of
        None \<Rightarrow> inventory\<lparr>reserved := Some \<lparr>vmids = [], ips = []\<rparr>\<rparr>
      | Some _ \<Rightarrow> inventory)"

definition reserveVmId :: "string \<Rightarrow> inventory \<Rightarrow> string \<Rightarrow> (error + int) \<times> inventory" where
  "reserveVmId type inventory rid =
     (let inv = init_reserved inventory
      in case reserved inv of
           None \<Rightarrow> (Inl TypeError, inv)
         | Some res \<Rightarrow>
             (case find (\<lambda>v. refId v = rid) (vmids res) of
                Some existing \<Rightarrow> (Inr (vmid existing), inv)
              | None \<Rightarrow>
                  (case getNextVmId type inv of
                     Inl e \<Rightarrow> (Inl e, inv)
                   | Inr i \<Rightarrow>
                       (Inr i,
                        inv\<lparr>reserved :=
                              Some (res\<lparr>vmids := vmids res @ [\<lparr>vmid = i, refId = rid\<rparr>]\<rparr>)\<rparr>))))"

text \<open>\<^verbatim>\<open>findIndex\<close>: \<open>None\<close> is the source's \<^verbatim>\<open>-1\<close>.\<close>

fun findIndex :: "('a \<Rightarrow> bool) \<Rightarrow> 'a list \<Rightarrow> nat option" where
  "findIndex P [] = None"
| "findIndex P (x # xs) =
     (if P x then Some 0 else map_option Suc (findIndex P xs))"

text \<open>\<^verbatim>\<open>xs.splice(i, 1)\<close>.\<close>

definition splice1 :: "nat \<Rightarrow> 'a list \<Rightarrow> 'a list" where
  "splice1 i xs = take i xs @ drop (Suc i) xs"

text \<open>
  \<^verbatim>\<open>releaseVmId\<close> reads \<^verbatim>\<open>vmids[index].vmid\<close> before it tests \<^verbatim>\<open>index !== -1\<close>:
  with no entry for the reference, \<^verbatim>\<open>vmids[-1]\<close> is undefined and the read throws.
  A result \<open>Inr None\<close> is the bare \<^verbatim>\<open>return\<close> (undefined).
\<close>

definition releaseVmId :: "inventory \<Rightarrow> string \<Rightarrow> (error + int option) \<times> inventory" where
  "releaseVmId inventory rid =
     (case reserved inventory of
        None \<Rightarrow> (Inr None, inventory)
      | Some res \<Rightarrow>
          if vmids res = [] then (Inr None, inventory)
          else
            (case findIndex (\<lambda>v. refId v = rid) (vmids res) of
               None \<Rightarrow> (Inl TypeError, inventory)
             | Some index \<Rightarrow>
                 (Inr (Some (vmid (vmids res ! index))),
                  inventory\<lparr>reserved := Some (res\<lparr>vmids := splice1 index (vmids res)\<rparr>)\<rparr>)))"

definition releaseIpAddress :: "inventory \<Rightarrow> string \<Rightarrow> (error + string option) \<times> inventory" where
  "releaseIpAddress inventory rid =
     (case reserved inventory of
        None \<Rightarrow> (Inr None, inventory)
      | Some res \<Rightarrow>
          (case findIndex (\<lambda>e. ip_refId e = rid) (ips res) of
             None \<Rightarrow> (Inl TypeError, inventory)
           | Some index \<Rightarrow>
               (Inr (Some (ip (ips res ! index))),
                inventory\<lparr>reserved := Some (res\<lparr>ips := splice1 index (ips res)\<rparr>)\<rparr>)))"

section \<open>Strings and numbers of the runtime\<close>

text \<open>
  The library functions of the JavaScript runtime that the address arithmetic calls, each
  after its definition in ECMAScript: \<^verbatim>\<open>split\<close> with a non-empty separator,
  \<^verbatim>\<open>includes\<close>, \<^verbatim>\<open>join\<close>, \<^verbatim>\<open>parseInt\<close>, \<^verbatim>\<open>Number.prototype.toString\<close> and the
  conversion of a Number to a \<^verbatim>\<open>BigInt\<close>.
\<close>

function split_js :: "string \<Rightarrow> string \<Rightarrow> string \<Rightarrow> string list" where
  "split_js sep cur [] = [rev cur]"
| "split_js sep cur (c # cs) =
     (if sep \<noteq> [] \<and> take (length sep) (c # cs) = sep
      then rev cur # split_js sep [] (drop (length sep) (c # cs))
      else split_js sep (c # cur) cs)"
  by pat_completeness auto
termination
  by (relation "measure (\<lambda>(sep, cur, s). length s)") auto

definition split :: "string \<Rightarrow> string \<Rightarrow> string list" where
  "split s sep = split_js sep [] s"

fun includes_js :: "string \<Rightarrow> string \<Rightarrow> bool" where
  "includes_js [] sub = (sub = [])"
| "includes_js (c # cs) sub = (take (length sub) (c # cs) = sub \<or> includes_js cs sub)"

fun join :: "string list \<Rightarrow> string \<Rightarrow> string" where
  "join [] sep = []"
| "join [x] sep = x"
| "join (x # y # ys) sep = x @ sep @ join (y # ys) sep"

text \<open>A Number as far as integers reach it: an integer, \<^verbatim>\<open>NaN\<close> or an infinity.\<close>

datatype number = NaN | Infinite | Finite int

text \<open>
  The value of a character as a digit (\<open>0\<close>-\<open>9\<close>, then letters of either case from 10),
  and the digits \<^verbatim>\<open>toString\<close> writes.  \<^verbatim>\<open>toString(radix)\<close> is called on a Number that is
  a natural number, with radix 10 (the conversion of a Number to a string) or 16.
\<close>

definition digit_value :: "char \<Rightarrow> nat option" where
  "digit_value c =
     (let n = (of_char c :: nat)
      in if 48 \<le> n \<and> n \<le> 57 then Some (n - 48)
         else if 97 \<le> n \<and> n \<le> 122 then Some (n - 87)
         else if 65 \<le> n \<and> n \<le> 90 then Some (n - 55)
         else None)"

definition is_digit :: "nat \<Rightarrow> char \<Rightarrow> bool" where
  "is_digit radix c = (case digit_value c of None \<Rightarrow> False | Some d \<Rightarrow> d < radix)"

definition digits_value :: "nat \<Rightarrow> string \<Rightarrow> int" where
  "digits_value radix z = foldl (\<lambda>acc c. acc * int radix + int (the (digit_value c))) 0 z"

definition digit_char :: "nat \<Rightarrow> char" where
  "digit_char d = ''0123456789abcdef'' ! d"

function toString :: "nat \<Rightarrow> nat \<Rightarrow> string" where
  "toString n radix =
     (if radix < 2 \<or> n < radix then [digit_char n]
      else toString (n div radix) radix @ [digit_char (n mod radix)])"
  by pat_completeness auto
termination
  by (relation "measure (\<lambda>(n, radix). n)") auto

declare toString.simps [simp del]

text \<open>
  An integer as the nearest double (ties to even): exact below \<open>2 ^ 53\<close>, an infinity from
  \<open>2 ^ 1024\<close> on.
\<close>

function bit_length :: "int \<Rightarrow> nat" where
  "bit_length n = (if n \<le> 0 then 0 else Suc (bit_length (n div 2)))"
  by pat_completeness auto
termination
  by (relation "measure nat") auto

declare bit_length.simps [simp del]

definition to_double :: "int \<Rightarrow> int option" where
  "to_double n =
     (if n < 2 ^ 53 then Some n
      else
        (let e = bit_length n - 53;
             q = n div 2 ^ e;
             r = n mod 2 ^ e;
             q' = (if 2 * r > 2 ^ e \<or> (2 * r = 2 ^ e \<and> odd q) then q + 1 else q)
         in if q' * 2 ^ e < 2 ^ 1024 then Some (q' * 2 ^ e) else None))"

definition js_whitespace :: "char \<Rightarrow> bool" where
  "js_whitespace c = ((of_char c :: nat) \<in> {9, 10, 11, 12, 13, 32})"

text \<open>
  \<^verbatim>\<open>parseInt(string, radix)\<close> for the radixes the source passes, 10 and 16: leading white
  space, a sign, for radix 16 a \<^verbatim>\<open>0x\<close> prefix, then the longest run of digits; no digit is
  \<^verbatim>\<open>NaN\<close>.
\<close>

definition parseInt :: "string \<Rightarrow> nat \<Rightarrow> number" where
  "parseInt str radix =
     (let s = dropWhile js_whitespace str;
          negative = (take 1 s = ''-'');
          s1 = (if take 1 s = ''+'' \<or> take 1 s = ''-'' then drop 1 s else s);
          s2 = (if radix = 16 \<and> (take 2 s1 = ''0x'' \<or> take 2 s1 = ''0X'') then drop 2 s1 else s1);
          z = takeWhile (is_digit radix) s2
      in if z = [] then NaN
         else
           (case to_double (digits_value radix z) of
              None \<Rightarrow> Infinite
            | Some m \<Rightarrow> Finite (if negative then - m else m)))"

text \<open>\<^verbatim>\<open>BigInt(number)\<close>: a \<^verbatim>\<open>RangeError\<close> unless the Number is an integer.\<close>

definition BigInt :: "number \<Rightarrow> error + int" where
  "BigInt x = (case x of Finite i \<Rightarrow> Inr i | _ \<Rightarrow> Inl RangeError)"

section \<open>\<^verbatim>\<open>net.isIP\<close>\<close>

text \<open>
  \<^verbatim>\<open>net.isIP\<close> is Node's, not the repository's: 4 for an IPv4 address in dot-decimal
  notation with no leading zeroes, 6 for an IPv6 address, 0 otherwise.  Node decides both
  with regular expressions (\<^verbatim>\<open>lib/internal/net.js\<close>); they are written out here.
\<close>

datatype rexp = Zero | One | Sym "char list" | Alt rexp rexp | Seq rexp rexp | Star rexp

fun nullable :: "rexp \<Rightarrow> bool" where
  "nullable Zero = False"
| "nullable One = True"
| "nullable (Sym cs) = False"
| "nullable (Alt r s) = (nullable r \<or> nullable s)"
| "nullable (Seq r s) = (nullable r \<and> nullable s)"
| "nullable (Star r) = True"

text \<open>Alternative and sequence that drop the empty language as they build.\<close>

fun alt :: "rexp \<Rightarrow> rexp \<Rightarrow> rexp" where
  "alt Zero s = s"
| "alt r Zero = r"
| "alt r s = Alt r s"

fun seq :: "rexp \<Rightarrow> rexp \<Rightarrow> rexp" where
  "seq Zero s = Zero"
| "seq One s = s"
| "seq r s = Seq r s"

fun deriv :: "char \<Rightarrow> rexp \<Rightarrow> rexp" where
  "deriv c Zero = Zero"
| "deriv c One = Zero"
| "deriv c (Sym cs) = (if c \<in> set cs then One else Zero)"
| "deriv c (Alt r s) = alt (deriv c r) (deriv c s)"
| "deriv c (Seq r s) =
     (if nullable r then alt (seq (deriv c r) s) (deriv c s) else seq (deriv c r) s)"
| "deriv c (Star r) = seq (deriv c r) (Star r)"

definition matches :: "rexp \<Rightarrow> string \<Rightarrow> bool" where
  "matches r s = nullable (foldl (\<lambda>r c. deriv c r) r s)"

fun times :: "nat \<Rightarrow> rexp \<Rightarrow> rexp" where
  "times 0 r = One"
| "times (Suc n) r = Seq r (times n r)"

text \<open>\<open>between m n r\<close> is \<^verbatim>\<open>r{m,n}\<close>.\<close>

definition between :: "nat \<Rightarrow> nat \<Rightarrow> rexp \<Rightarrow> rexp" where
  "between m n r = Seq (times m r) (times (n - m) (Alt One r))"

definition alts :: "rexp list \<Rightarrow> rexp" where
  "alts rs = foldr Alt rs Zero"

definition dec_digit :: rexp where
  "dec_digit = Sym ''0123456789''"

text \<open>\<^verbatim>\<open>v4Seg = '(?:25[0-5]|2[0-4]\\d|1\\d\\d|[1-9]\\d|\\d)'\<close>\<close>

definition v4Seg :: rexp where
  "v4Seg =
     alts [Seq (Sym ''2'') (Seq (Sym ''5'') (Sym ''012345'')),
           Seq (Sym ''2'') (Seq (Sym ''01234'') dec_digit),
           Seq (Sym ''1'') (Seq dec_digit dec_digit),
           Seq (Sym ''123456789'') dec_digit,
           dec_digit]"

text \<open>\<^verbatim>\<open>v4Str = `(?:${v4Seg}\\.){3}${v4Seg}`\<close>\<close>

definition v4Str :: rexp where
  "v4Str = Seq (times 3 (Seq v4Seg (Sym ''.''))) v4Seg"

text \<open>\<^verbatim>\<open>v6Seg = '(?:[0-9a-fA-F]{1,4})'\<close>\<close>

definition v6Seg :: rexp where
  "v6Seg = between 1 4 (Sym ''0123456789abcdefABCDEF'')"

definition colon :: rexp where
  "colon = Sym '':''"

text \<open>The eight alternatives of \<^verbatim>\<open>IPv6Reg\<close>, then the optional zone.\<close>

definition v6Str :: rexp where
  "v6Str =
     (let S = v6Seg; SC = Seq v6Seg colon; CS = Seq colon v6Seg; CV4 = Seq colon v4Str
      in alts
        [Seq (times 7 SC) (alts [S, colon]),
         Seq (times 6 SC) (alts [v4Str, CS, colon]),
         Seq (times 5 SC) (alts [CV4, between 1 2 CS, colon]),
         Seq (times 4 SC) (alts [Seq (between 0 1 CS) CV4, between 1 3 CS, colon]),
         Seq (times 3 SC) (alts [Seq (between 0 2 CS) CV4, between 1 4 CS, colon]),
         Seq (times 2 SC) (alts [Seq (between 0 3 CS) CV4, between 1 5 CS, colon]),
         Seq (times 1 SC) (alts [Seq (between 0 4 CS) CV4, between 1 6 CS, colon]),
         Seq colon (alts [Seq (between 0 5 CS) CV4, between 1 7 CS, colon])])"

definition zone :: rexp where
  "zone =
     (let z = Sym ''0123456789abcdefghijklmnopqrstuvwxyzABCDEFGHIJKLMNOPQRSTUVWXYZ-.:''
      in Seq (Sym ''%'') (Seq z (Star z)))"

definition isIPv6 :: "string \<Rightarrow> bool" where
  "isIPv6 s = matches (Seq v6Str (Alt One zone)) s"

text \<open>
  \<^verbatim>\<open>isIPv4\<close>, the same language as \<open>v4Str\<close>, read off the dotted parts: four of them, each
  one to three decimal digits, at most 255, with no leading zero.
\<close>

definition is_octet :: "string \<Rightarrow> bool" where
  "is_octet s =
     (s \<noteq> [] \<and> length s \<le> 3 \<and> list_all (is_digit 10) s
      \<and> (length s = 1 \<or> take 1 s \<noteq> ''0'') \<and> digits_value 10 s \<le> 255)"

definition isIPv4 :: "string \<Rightarrow> bool" where
  "isIPv4 s = (let parts = split s ''.'' in length parts = 4 \<and> list_all is_octet parts)"

definition isIP :: "string \<Rightarrow> nat" where
  "isIP s = (if isIPv4 s then 4 else if isIPv6 s then 6 else 0)"

section \<open>Static addresses\<close>

text \<open>
  The helpers nested in \<^verbatim>\<open>getNextIpAddress\<close>.  \<^verbatim>\<open>reduce((acc, x) => (acc << b) + BigInt(x), 0n)\<close>
  over \<^verbatim>\<open>BigInt\<close> is \<open>acc * 2 ^ b + x\<close> over \<open>int\<close>; it throws where \<^verbatim>\<open>BigInt(x)\<close> does.
\<close>

fun reduce_shift :: "nat \<Rightarrow> int \<Rightarrow> number list \<Rightarrow> error + int" where
  "reduce_shift b acc [] = Inr acc"
| "reduce_shift b acc (x # xs) =
     (case BigInt x of
        Inl e \<Rightarrow> Inl e
      | Inr v \<Rightarrow> reduce_shift b (acc * 2 ^ b + v) xs)"

definition ipv4ToBig :: "string \<Rightarrow> error + int" where
  "ipv4ToBig ip_str = reduce_shift 8 0 (map (\<lambda>octet. parseInt octet 10) (split ip_str ''.''))"

text \<open>\<^verbatim>\<open>(n >> 24n) & 0xFFn\<close> on a \<^verbatim>\<open>BigInt\<close> is \<open>n div 2 ^ 24 mod 256\<close>.\<close>

definition bigToIpv4 :: "int \<Rightarrow> string" where
  "bigToIpv4 n =
     join [toString (nat (n div 2 ^ 24 mod 256)) 10,
           toString (nat (n div 2 ^ 16 mod 256)) 10,
           toString (nat (n div 2 ^ 8 mod 256)) 10,
           toString (nat (n mod 256)) 10] ''.''"

text \<open>\<^verbatim>\<open>p || '0'\<close>\<close>

definition or_zero :: "string \<Rightarrow> string" where
  "or_zero p = (if p = [] then ''0'' else p)"

text \<open>
  \<^verbatim>\<open>const [left, right] = ip.split('::')\<close> takes the first two parts;
  \<^verbatim>\<open>Array(zeros)\<close> throws a \<^verbatim>\<open>RangeError\<close> when \<^verbatim>\<open>zeros\<close> is negative.
\<close>

definition expandIpv6 :: "string \<Rightarrow> error + string list" where
  "expandIpv6 ip_str =
     (if includes_js ip_str ''::'' then
        (let halves = split ip_str ''::'';
             left = (case halves of [] \<Rightarrow> [] | x # _ \<Rightarrow> x);
             right = (case halves of _ # y # _ \<Rightarrow> y | _ \<Rightarrow> []);
             l = (if left \<noteq> [] then filter (\<lambda>p. p \<noteq> []) (split left '':'') else []);
             r = (if right \<noteq> [] then filter (\<lambda>p. p \<noteq> []) (split right '':'') else [])
         in if 8 < length l + length r then Inl RangeError
            else Inr (map or_zero (l @ replicate (8 - (length l + length r)) ''0'' @ r)))
      else Inr (map or_zero (split ip_str '':'')))"

definition ipv6ToBig :: "string \<Rightarrow> error + int" where
  "ipv6ToBig ip_str =
     (case expandIpv6 ip_str of
        Inl e \<Rightarrow> Inl e
      | Inr parts \<Rightarrow> reduce_shift 16 0 (map (\<lambda>p. parseInt p 16) parts))"

text \<open>
  The loop of \<^verbatim>\<open>bigToIpv6\<close>, eight rounds of \<^verbatim>\<open>unshift\<close>; the \<^verbatim>\<open>replace\<close> after the
  \<^verbatim>\<open>join\<close> puts every match back (\<^verbatim>\<open>m => m\<close>).
\<close>

fun bigToIpv6_loop :: "nat \<Rightarrow> int \<Rightarrow> string list \<Rightarrow> string list" where
  "bigToIpv6_loop 0 n parts = parts"
| "bigToIpv6_loop (Suc i) n parts =
     bigToIpv6_loop i (n div 2 ^ 16) (toString (nat (n mod 65536)) 16 # parts)"

definition bigToIpv6 :: "int \<Rightarrow> string" where
  "bigToIpv6 n = join (bigToIpv6_loop 8 n []) '':''"

text \<open>\<^verbatim>\<open>version === 4 ? ipv4ToBig(x) : ipv6ToBig(x)\<close> and its inverse.\<close>

definition toBig :: "nat \<Rightarrow> string \<Rightarrow> error + int" where
  "toBig version x = (if version = 4 then ipv4ToBig x else ipv6ToBig x)"

definition bigToIp :: "nat \<Rightarrow> int \<Rightarrow> string" where
  "bigToIp version n = (if version = 4 then bigToIpv4 n else bigToIpv6 n)"

text \<open>The prefix length read from \<^verbatim>\<open>netCfg.subnet\<close>; \<open>None\<close> is the source's \<^verbatim>\<open>null\<close>.\<close>

definition prefixLen :: "string \<Rightarrow> string option" where
  "prefixLen subnet_str =
     (if subnet_str \<noteq> [] \<and> includes_js subnet_str ''/'' then
        (case split subnet_str ''/'' of
           [a, b] \<Rightarrow> if b \<noteq> [] then Some b else None
         | _ \<Rightarrow> None)
      else None)"

text \<open>
  The addresses the source adds to \<^verbatim>\<open>used\<close>, in its order: the gateway and the DNS server
  when set, then every host interface on the network with a valid address.
\<close>

definition used_addresses :: "network_cfg \<Rightarrow> string \<Rightarrow> inventory \<Rightarrow> string list" where
  "used_addresses netCfg networkName inventory =
     (if gateway netCfg \<noteq> [] then [gateway netCfg] else [])
     @ (if dns netCfg \<noteq> [] then [dns netCfg] else [])
     @ concat (map (\<lambda>h. map iface_ip
                       (filter (\<lambda>i. network i = networkName \<and> iface_ip i \<noteq> [] \<and> isIP (iface_ip i) \<noteq> 0)
                          (interfaces h)))
          (hosts inventory))"

text \<open>
  Their conversion, one after the other; the first throw ends it.  In
  \<^verbatim>\<open>getNextIpAddress\<close> the inventory is an object, so the guard \<^verbatim>\<open>if (!inventory)\<close>
  does not fire, and \<^verbatim>\<open>static_range\<close> is an object with two strings, as the schema has it.
\<close>

fun toBig_all :: "nat \<Rightarrow> string list \<Rightarrow> error + int list" where
  "toBig_all version [] = Inr []"
| "toBig_all version (x # xs) =
     (case toBig version x of
        Inl e \<Rightarrow> Inl e
      | Inr v \<Rightarrow> (case toBig_all version xs of Inl e \<Rightarrow> Inl e | Inr vs \<Rightarrow> Inr (v # vs)))"

definition getNextIpAddress :: "string \<Rightarrow> inventory \<Rightarrow> error + string" where
  "getNextIpAddress networkName inventory =
     (case find (\<lambda>n. name n = networkName) (networks inventory) of
        None \<Rightarrow> Inl (NetworkNotFound networkName)
      | Some netCfg \<Rightarrow>
          (let startIp = range_start (static_range netCfg);
               endIp = range_end (static_range netCfg)
           in if startIp = [] \<or> endIp = [] then Inl (InvalidStaticRange networkName)
              else
                (let version = isIP startIp
                 in if version = 0 \<or> version \<noteq> isIP endIp then Inl InvalidIpVersion
                    else
                      (case toBig version startIp of
                         Inl e \<Rightarrow> Inl e
                       | Inr startBig \<Rightarrow>
                           (case toBig version endIp of
                              Inl e \<Rightarrow> Inl e
                            | Inr endBig \<Rightarrow>
                                if startBig > endBig then Inl StartGreaterThanEnd
                                else
                                  (case toBig_all version
                                          (used_addresses netCfg networkName inventory) of
                                     Inl e \<Rightarrow> Inl e
                                   | Inr used \<Rightarrow>
                                       (case scan_range used startBig endBig of
                                          None \<Rightarrow> Inl (NoAvailableIp networkName)
                                        | Some ipBig \<Rightarrow>
                                            (let ipStr = bigToIp version ipBig
                                             in Inr (case prefixLen (subnet netCfg) of
                                                       Some p \<Rightarrow> ipStr @ ''/'' @ p
                                                     | None \<Rightarrow> ipStr)))))))))"

definition reserveIpAddress :: "string \<Rightarrow> inventory \<Rightarrow> string \<Rightarrow> (error + string) \<times> inventory" where
  "reserveIpAddress networkName inventory rid =
     (let inv = init_reserved inventory
      in case reserved inv of
           None \<Rightarrow> (Inl TypeError, inv)
         | Some res \<Rightarrow>
             (case find (\<lambda>e. ip_refId e = rid) (ips res) of
                Some existing \<Rightarrow> (Inr (ip existing), inv)
              | None \<Rightarrow>
                  (case getNextIpAddress networkName inv of
                     Inl e \<Rightarrow> (Inl e, inv)
                   | Inr a \<Rightarrow>
                       (Inr a,
                        inv\<lparr>reserved :=
                              Some (res\<lparr>ips := ips res @ [\<lparr>ip = a, ip_refId = rid\<rparr>]\<rparr>)\<rparr>))))"

section \<open>Reference resolution\<close>

text \<open>
  A property read \<^verbatim>\<open>value[key]\<close>.  On \<^verbatim>\<open>null\<close> and \<^verbatim>\<open>undefined\<close> it throws.  An object
  gives its own key's value.  A key it has not but \<^verbatim>\<open>Object.prototype\<close> has names a function
  of the runtime, and a key of a string, number or boolean goes through that primitive's
  prototype: neither is a value of a document, and the embedding stops there with
  \<open>OutsideModel\<close> (which is no throw).  Objects have each key once, as \<^verbatim>\<open>JSON.parse\<close> builds
  them.
\<close>

datatype 'a outcome = Returns 'a | Throws error | OutsideModel

definition get_property :: "json \<Rightarrow> string \<Rightarrow> json outcome" where
  "get_property v key =
     (case v of
        JUndefined \<Rightarrow> Throws TypeError
      | JNull \<Rightarrow> Throws TypeError
      | JObj props \<Rightarrow>
          (case map_of props key of
             Some x \<Rightarrow> Returns x
           | None \<Rightarrow> if key \<in> set object_prototype_keys then OutsideModel else Returns JUndefined)
      | _ \<Rightarrow> OutsideModel)"

text \<open>
  \<^verbatim>\<open>item.name\<close>: no prototype has a \<^verbatim>\<open>name\<close>, so every value but an object with that
  key, \<^verbatim>\<open>null\<close> and \<^verbatim>\<open>undefined\<close> gives \<^verbatim>\<open>undefined\<close>.
\<close>

definition item_name :: "json \<Rightarrow> json outcome" where
  "item_name item =
     (case item of
        JUndefined \<Rightarrow> Throws TypeError
      | JNull \<Rightarrow> Throws TypeError
      | JObj props \<Rightarrow> Returns (case map_of props ''name'' of Some x \<Rightarrow> x | None \<Rightarrow> JUndefined)
      | _ \<Rightarrow> Returns JUndefined)"

text \<open>\<^verbatim>\<open>items.find(item => item.name === p)\<close>\<close>

fun find_by_name :: "string \<Rightarrow> json list \<Rightarrow> json outcome" where
  "find_by_name p [] = Returns JUndefined"
| "find_by_name p (item # items) =
     (case item_name item of
        Returns n \<Rightarrow> if n = JStr p then Returns item else find_by_name p items
      | Throws e \<Rightarrow> Throws e
      | OutsideModel \<Rightarrow> OutsideModel)"

text \<open>
  The loop of \<^verbatim>\<open>getRefValue\<close> over the path.  \<^verbatim>\<open>refValue && p in refValue\<close>: a falsy
  value ends the walk with \<^verbatim>\<open>null\<close>; on a truthy primitive the \<^verbatim>\<open>in\<close> operator throws.
\<close>

fun getRefValue_loop :: "string list \<Rightarrow> json \<Rightarrow> json outcome" where
  "getRefValue_loop [] refValue = Returns refValue"
| "getRefValue_loop (p # path) refValue =
     (case refValue of
        JArr items \<Rightarrow>
          (case find_by_name p items of
             Returns v \<Rightarrow> getRefValue_loop path v
           | Throws e \<Rightarrow> Throws e
           | OutsideModel \<Rightarrow> OutsideModel)
      | JObj props \<Rightarrow>
          (case map_of props p of
             Some v \<Rightarrow> getRefValue_loop path v
           | None \<Rightarrow> if p \<in> set object_prototype_keys then OutsideModel else Returns JNull)
      | JUndefined \<Rightarrow> Returns JNull
      | JNull \<Rightarrow> Returns JNull
      | JBool b \<Rightarrow> if b then Throws TypeError else Returns JNull
      | JNum n \<Rightarrow> if n \<noteq> 0 then Throws TypeError else Returns JNull
      | JStr s \<Rightarrow> if s \<noteq> [] then Throws TypeError else Returns JNull)"

definition getRefValue :: "string \<Rightarrow> json \<Rightarrow> json outcome" where
  "getRefValue refString obj = getRefValue_loop (split refString ''.'') obj"

text \<open>
  A Number is written with all its digits only when it is a safe integer (below \<open>2 ^ 53\<close> in
  magnitude); a larger one is written with the fewest digits that give it back, from
  \<^verbatim>\<open>1e+21\<close> on with an exponent.  \<open>number_string\<close> is the text of a safe integer, and the
  passes below leave the model (\<open>OutsideModel\<close>) on a document with any other number.
\<close>

definition safe_integer :: "int \<Rightarrow> bool" where
  "safe_integer n = (- (2 ^ 53) < n \<and> n < 2 ^ 53)"

fun safe_numbers :: "json \<Rightarrow> bool" where
  "safe_numbers (JNum n) = safe_integer n"
| "safe_numbers (JArr items) = list_all safe_numbers items"
| "safe_numbers (JObj props) = list_all (\<lambda>(k, v). safe_numbers v) props"
| "safe_numbers v = True"

definition number_string :: "int \<Rightarrow> string" where
  "number_string n = (if n < 0 then ''-'' @ toString (nat (- n)) 10 else toString (nat n) 10)"

text \<open>
  \<^verbatim>\<open>String(value)\<close>, which \<^verbatim>\<open>replace\<close> applies to its second argument.  An array joins its
  elements with commas, \<^verbatim>\<open>null\<close> and \<^verbatim>\<open>undefined\<close> among them as the empty string.
\<close>

fun String :: "json \<Rightarrow> string" where
  "String JUndefined = ''undefined''"
| "String JNull = ''null''"
| "String (JBool b) = (if b then ''true'' else ''false'')"
| "String (JNum n) = number_string n"
| "String (JStr s) = s"
| "String (JArr items) =
     join (map (\<lambda>x. if x = JNull \<or> x = JUndefined then [] else String x) items) '',''"
| "String (JObj props) = ''[object Object]''"

text \<open>
  \<^verbatim>\<open>JSON.stringify(value)\<close> without indentation, for a document (an object or array at
  the top).  A string is quoted with \<^verbatim>\<open>"\<close> and \<^verbatim>\<open>\\<close> escaped and control characters
  written as escapes.  The keys of an object stand in the order in which the runtime
  enumerates them.
\<close>

definition hex4 :: "nat \<Rightarrow> string" where
  "hex4 n = (let h = toString n 16 in replicate (4 - length h) (CHR ''0'') @ h)"

definition quote_char :: "char \<Rightarrow> string" where
  "quote_char c =
     (let n = (of_char c :: nat)
      in if c = CHR 0x22 then [CHR 0x5C, CHR 0x22]
         else if c = CHR 0x5C then [CHR 0x5C, CHR 0x5C]
         else if n = 8 then [CHR 0x5C, CHR ''b'']
         else if n = 9 then [CHR 0x5C, CHR ''t'']
         else if n = 10 then [CHR 0x5C, CHR ''n'']
         else if n = 12 then [CHR 0x5C, CHR ''f'']
         else if n = 13 then [CHR 0x5C, CHR ''r'']
         else if n < 32 then [CHR 0x5C, CHR ''u''] @ hex4 n
         else [c])"

definition quote :: "string \<Rightarrow> string" where
  "quote s = [CHR 0x22] @ concat (map quote_char s) @ [CHR 0x22]"

fun stringify :: "json \<Rightarrow> string" where
  "stringify JUndefined = ''null''"
| "stringify JNull = ''null''"
| "stringify (JBool b) = (if b then ''true'' else ''false'')"
| "stringify (JNum n) = number_string n"
| "stringify (JStr s) = quote s"
| "stringify (JArr items) = ''['' @ join (map stringify items) '','' @ '']''"
| "stringify (JObj props) =
     ''{'' @ join (map (\<lambda>(k, v). quote k @ '':'' @ stringify v)
                    (filter (\<lambda>(k, v). v \<noteq> JUndefined) props)) '','' @ ''}''"

text \<open>
  \<^verbatim>\<open>Array.from(strConfig.matchAll(/{inventory:([^"}]+)}/g), m => m[0])\<close> and the same for
  \<^verbatim>\<open>/{config:([^"}]+)}/g\<close> and \<^verbatim>\<open>/"bw:([^"]+)"/g\<close>.  Each of the three expressions is an
  opening text, the longest run of characters outside a set (at least one), and one closing
  character that belongs to the set, so a shorter run cannot match.  The search resumes
  after a match, and one character on where there is none.
\<close>

function matchAll :: "string \<Rightarrow> string \<Rightarrow> char \<Rightarrow> string \<Rightarrow> string list" where
  "matchAll opening excluded closing [] = []"
| "matchAll opening excluded closing (c # cs) =
     (let body = takeWhile (\<lambda>x. x \<notin> set excluded) (drop (length opening) (c # cs));
          rest = drop (length opening + length body) (c # cs)
      in if take (length opening) (c # cs) = opening \<and> body \<noteq> [] \<and> take 1 rest = [closing]
         then (opening @ body @ [closing]) # matchAll opening excluded closing (drop 1 rest)
         else matchAll opening excluded closing cs)"
  by pat_completeness auto
termination
  by (relation "measure (\<lambda>(opening, excluded, closing, s). length s)") auto

definition inventoryRefRegex :: "string \<Rightarrow> string list" where
  "inventoryRefRegex s = matchAll ''{inventory:'' [CHR 0x22, CHR ''}''] (CHR ''}'') s"

definition upperLevelRegex :: "string \<Rightarrow> string list" where
  "upperLevelRegex s = matchAll ''{config:'' [CHR 0x22, CHR ''}''] (CHR ''}'') s"

definition bwRefRegex :: "string \<Rightarrow> string list" where
  "bwRefRegex s = matchAll ([CHR 0x22] @ ''bw:'') [CHR 0x22] (CHR 0x22) s"

text \<open>
  \<^verbatim>\<open>str.replace(pattern, replacement)\<close> with two strings: the first occurrence of the
  pattern gives way to the replacement, in which \<^verbatim>\<open>$$\<close> stands for a dollar, \<^verbatim>\<open>$&\<close> for
  the match, \<^verbatim>\<open>$`\<close> for the text before it and \<^verbatim>\<open>$'\<close> for the text after it.
\<close>

fun substitution :: "string \<Rightarrow> string \<Rightarrow> string \<Rightarrow> string \<Rightarrow> string" where
  "substitution matched pre post (d # x # rest) =
     (if d = CHR ''$'' \<and> x = CHR ''$'' then CHR ''$'' # substitution matched pre post rest
      else if d = CHR ''$'' \<and> x = CHR ''&'' then matched @ substitution matched pre post rest
      else if d = CHR ''$'' \<and> x = CHR 0x60 then pre @ substitution matched pre post rest
      else if d = CHR ''$'' \<and> x = CHR 0x27 then post @ substitution matched pre post rest
      else d # substitution matched pre post (x # rest))"
| "substitution matched pre post rest = rest"

fun indexOf :: "string \<Rightarrow> string \<Rightarrow> nat option" where
  "indexOf [] pattern = (if pattern = [] then Some 0 else None)"
| "indexOf (c # cs) pattern =
     (if take (length pattern) (c # cs) = pattern then Some 0
      else map_option Suc (indexOf cs pattern))"

definition replace :: "string \<Rightarrow> string \<Rightarrow> string \<Rightarrow> string" where
  "replace str pattern replacement =
     (case indexOf str pattern of
        None \<Rightarrow> str
      | Some i \<Rightarrow>
          (let pre = take i str; post = drop (i + length pattern) str
           in pre @ substitution pattern pre post replacement @ post))"

text \<open>
  \<^verbatim>\<open>populateInventoryRefs\<close> and \<^verbatim>\<open>populateUpperLevelRefs\<close>, from the configuration to the
  text they hand to \<^verbatim>\<open>JSON.parse\<close>.  \<^verbatim>\<open>match.replace(/{|}/g, '')\<close> drops every brace of
  the token, \<^verbatim>\<open>slice\<close> the prefix.  Whatever \<^verbatim>\<open>getRefValue\<close> returns is substituted.
\<close>

fun refs_loop :: "nat \<Rightarrow> json \<Rightarrow> string list \<Rightarrow> string \<Rightarrow> string outcome" where
  "refs_loop prefix root [] strConfig = Returns strConfig"
| "refs_loop prefix root (m # ms) strConfig =
     (let element = filter (\<lambda>c. c \<noteq> CHR ''{'' \<and> c \<noteq> CHR ''}'') m
      in case getRefValue (drop prefix element) root of
           Returns result \<Rightarrow> refs_loop prefix root ms (replace strConfig m (String result))
         | Throws e \<Rightarrow> Throws e
         | OutsideModel \<Rightarrow> OutsideModel)"

definition populateInventoryRefs :: "json \<Rightarrow> json \<Rightarrow> string outcome" where
  "populateInventoryRefs config inventory =
     (if safe_numbers config \<and> safe_numbers inventory then
        (let strConfig = stringify config
         in refs_loop (length ''inventory:'') inventory (inventoryRefRegex strConfig) strConfig)
      else OutsideModel)"

definition populateUpperLevelRefs :: "json \<Rightarrow> string outcome" where
  "populateUpperLevelRefs config =
     (if safe_numbers config then
        (let strConfig = stringify config
         in refs_loop (length ''config:'') config (upperLevelRegex strConfig) strConfig)
      else OutsideModel)"

text \<open>
  \<^verbatim>\<open>Bw.prototype.fill\<close> over the secrets that \<^verbatim>\<open>list\<close> has fetched (\<^verbatim>\<open>this.secrets\<close> is
  set, as it is when \<^verbatim>\<open>populateBitwardenRefs\<close> calls \<^verbatim>\<open>fill\<close>).  A token whose secret is
  not found is passed over (\<^verbatim>\<open>continue\<close>); one whose path ends on anything but a string is
  left as it is (\<^verbatim>\<open>typeof current === 'string'\<close>).
\<close>

fun fill_path :: "string list \<Rightarrow> json \<Rightarrow> json outcome" where
  "fill_path [] current = Returns current"
| "fill_path (part # path) current =
     (case (case current of JArr items \<Rightarrow> find_by_name part items | _ \<Rightarrow> get_property current part) of
        Returns v \<Rightarrow> fill_path path v
      | Throws e \<Rightarrow> Throws e
      | OutsideModel \<Rightarrow> OutsideModel)"

fun fill_loop :: "json list \<Rightarrow> string list \<Rightarrow> string \<Rightarrow> string outcome" where
  "fill_loop secrets [] strConfig = Returns strConfig"
| "fill_loop secrets (m # ms) strConfig =
     (let element = filter (\<lambda>c. c \<noteq> CHR 0x22) m;
          reference = replace element ''bw:'' [];
          parts = split reference ''.''
      in case find_by_name (hd parts) secrets of
           Throws e \<Rightarrow> Throws e
         | OutsideModel \<Rightarrow> OutsideModel
         | Returns bwSecret \<Rightarrow>
             if bwSecret = JUndefined then fill_loop secrets ms strConfig
             else
               (case fill_path (tl parts) bwSecret of
                  Throws e \<Rightarrow> Throws e
                | OutsideModel \<Rightarrow> OutsideModel
                | Returns (JStr current) \<Rightarrow>
                    fill_loop secrets ms
                      (replace strConfig ([CHR 0x22] @ ''bw:'' @ reference @ [CHR 0x22])
                         ([CHR 0x22] @ current @ [CHR 0x22]))
                | Returns _ \<Rightarrow> fill_loop secrets ms strConfig))"

definition fill :: "json list \<Rightarrow> json \<Rightarrow> string outcome" where
  "fill secrets config =
     (if safe_numbers config then
        (let strConfig = stringify config in fill_loop secrets (bwRefRegex strConfig) strConfig)
      else OutsideModel)"

section \<open>Persisting the ledger\<close>



















section \<open>The claims' vocabulary\<close>

text \<open>
  The identifiers the allocator counts as used: \<^verbatim>\<open>templates[].vmid\<close> and
  \<^verbatim>\<open>reserved.vmids[].vmid\<close>.
\<close>

definition used_vmids :: "inventory \<Rightarrow> int set" where
  "used_vmids inventory =
     set (map template_vmid (templates inventory))
     \<union> (case reserved inventory of None \<Rightarrow> {} | Some res \<Rightarrow> set (map vmid (vmids res)))"

text \<open>The two lists of the ledger; an inventory with no \<^verbatim>\<open>reserved\<close> block has none.\<close>

definition reserved_vmids :: "inventory \<Rightarrow> reserved_vmid list" where
  "reserved_vmids inventory = (case reserved inventory of None \<Rightarrow> [] | Some res \<Rightarrow> vmids res)"

definition reserved_ips :: "inventory \<Rightarrow> reserved_ip list" where
  "reserved_ips inventory = (case reserved inventory of None \<Rightarrow> [] | Some res \<Rightarrow> ips res)"

text \<open>
  The network of scenario A, with whatever \<^verbatim>\<open>subnet\<close> it has, and an inventory that holds
  it and nothing else.
\<close>

definition lan :: "string \<Rightarrow> network_cfg" where
  "lan sn =
     \<lparr>name = ''lan'', subnet = sn, gateway = ''10.0.0.1'', dns = ''10.0.0.1'',
      static_range = \<lparr>range_start = ''10.0.0.2'', range_end = ''10.0.0.4''\<rparr>\<rparr>"

definition scenario_A :: "string \<Rightarrow> inventory" where
  "scenario_A sn =
     \<lparr>proxmox = JNull, terraform = JNull, networks = [lan sn], hosts = [], templates = [],
      reserved = Some \<lparr>vmids = [], ips = []\<rparr>\<rparr>"

text \<open>An address as \<^verbatim>\<open>getNextIpAddress\<close> returns it: \<^verbatim>\<open>prefixLen ? `${ipStr}/${prefixLen}` : ipStr\<close>.\<close>

definition with_prefix :: "string \<Rightarrow> string \<Rightarrow> string" where
  "with_prefix subnet_str ipStr =
     (case prefixLen subnet_str of Some p \<Rightarrow> ipStr @ ''/'' @ p | None \<Rightarrow> ipStr)"

text \<open>
  Scenario C: a range of the one address 10.0.0.5, which a host on the network holds.
\<close>

definition scenario_C :: inventory where
  "scenario_C =
     \<lparr>proxmox = JNull, terraform = JNull,
      networks = [\<lparr>name = ''lan'', subnet = ''10.0.0.0/24'', gateway = ''10.0.0.1'',
                   dns = ''10.0.0.1'',
                   static_range = \<lparr>range_start = ''10.0.0.5'', range_end = ''10.0.0.5''\<rparr>\<rparr>],
      hosts = [\<lparr>host_name = ''web01'', host_vmid = 100, host_type = ''vm'',
                interfaces = [\<lparr>network = ''lan'', iface_ip = ''10.0.0.5''\<rparr>]\<rparr>],
      templates = [], reserved = Some \<lparr>vmids = [], ips = []\<rparr>\<rparr>"

text \<open>
  An IPv4 range on a network whose gateway is an IPv6 address; the schema of
  \<^verbatim>\<open>loadInventory\<close> admits either family for each address on its own.
\<close>

definition mixed_families :: inventory where
  "mixed_families =
     \<lparr>proxmox = JNull, terraform = JNull,
      networks = [\<lparr>name = ''lan'', subnet = ''10.0.0.0/24'', gateway = ''fe80::1'',
                   dns = ''10.0.0.1'',
                   static_range = \<lparr>range_start = ''10.0.0.2'', range_end = ''10.0.0.4''\<rparr>\<rparr>],
      hosts = [], templates = [], reserved = Some \<lparr>vmids = [], ips = []\<rparr>\<rparr>"









text \<open>
  An IPv6 network with a range of the one address \<^verbatim>\<open>::ffff:0:10\<close>.  Its last 32 bits
  written in dot-decimal notation are \<^verbatim>\<open>0.0.0.16\<close>, so \<^verbatim>\<open>::ffff:0.0.0.16\<close> is that same
  address.  In \<open>dotted_gateway\<close> the gateway and the DNS server have it, in \<open>dotted_host\<close> a
  host on the network.
\<close>

definition lan6 :: "string \<Rightarrow> network_cfg" where
  "lan6 gw =
     \<lparr>name = ''lan6'', subnet = ''::ffff:0:0/112'', gateway = gw, dns = gw,
      static_range = \<lparr>range_start = ''::ffff:0:10'', range_end = ''::ffff:0:10''\<rparr>\<rparr>"

definition dotted_gateway :: inventory where
  "dotted_gateway =
     \<lparr>proxmox = JNull, terraform = JNull, networks = [lan6 ''::ffff:0.0.0.16''],
      hosts = [], templates = [], reserved = Some \<lparr>vmids = [], ips = []\<rparr>\<rparr>"





section \<open>Scanning a range\<close>

text \<open>A used first value can be left out of the interval.\<close>

lemma shift_some:
  fixes i k hi :: int
  assumes "i \<in> U"
  shows "(i + 1 \<le> k \<and> k \<le> hi \<and> k \<notin> U \<and> (\<forall>j. i + 1 \<le> j \<and> j < k \<longrightarrow> j \<in> U))
          \<longleftrightarrow> (i \<le> k \<and> k \<le> hi \<and> k \<notin> U \<and> (\<forall>j. i \<le> j \<and> j < k \<longrightarrow> j \<in> U))"
proof
  assume a: "i + 1 \<le> k \<and> k \<le> hi \<and> k \<notin> U \<and> (\<forall>j. i + 1 \<le> j \<and> j < k \<longrightarrow> j \<in> U)"
  have "j \<in> U" if "i \<le> j \<and> j < k" for j
  proof (cases "j = i")
    case True
    with assms show ?thesis by simp
  next
    case False
    with that have "i + 1 \<le> j \<and> j < k" by simp
    with a show ?thesis by blast
  qed
  with a show "i \<le> k \<and> k \<le> hi \<and> k \<notin> U \<and> (\<forall>j. i \<le> j \<and> j < k \<longrightarrow> j \<in> U)"
    by simp
next
  assume a: "i \<le> k \<and> k \<le> hi \<and> k \<notin> U \<and> (\<forall>j. i \<le> j \<and> j < k \<longrightarrow> j \<in> U)"
  with assms have "k \<noteq> i" by blast
  with a have "i + 1 \<le> k" by simp
  moreover have "j \<in> U" if "i + 1 \<le> j \<and> j < k" for j
  proof -
    from that have "i \<le> j \<and> j < k" by simp
    with a show ?thesis by blast
  qed
  ultimately show "i + 1 \<le> k \<and> k \<le> hi \<and> k \<notin> U \<and> (\<forall>j. i + 1 \<le> j \<and> j < k \<longrightarrow> j \<in> U)"
    using a by simp
qed

lemma shift_none:
  fixes i hi :: int
  assumes "i \<in> U"
  shows "(\<forall>j. i + 1 \<le> j \<and> j \<le> hi \<longrightarrow> j \<in> U) \<longleftrightarrow> (\<forall>j. i \<le> j \<and> j \<le> hi \<longrightarrow> j \<in> U)"
proof
  assume a: "\<forall>j. i + 1 \<le> j \<and> j \<le> hi \<longrightarrow> j \<in> U"
  show "\<forall>j. i \<le> j \<and> j \<le> hi \<longrightarrow> j \<in> U"
  proof (intro allI impI)
    fix j
    assume r: "i \<le> j \<and> j \<le> hi"
    show "j \<in> U"
    proof (cases "j = i")
      case True
      with assms show ?thesis by simp
    next
      case False
      with r have "i + 1 \<le> j \<and> j \<le> hi" by simp
      with a show ?thesis by blast
    qed
  qed
next
  assume a: "\<forall>j. i \<le> j \<and> j \<le> hi \<longrightarrow> j \<in> U"
  show "\<forall>j. i + 1 \<le> j \<and> j \<le> hi \<longrightarrow> j \<in> U"
  proof (intro allI impI)
    fix j
    assume "i + 1 \<le> j \<and> j \<le> hi"
    then have "i \<le> j \<and> j \<le> hi" by simp
    with a show "j \<in> U" by blast
  qed
qed

lemma scan_range_Some_iff:
  "scan_range used lo hi = Some k \<longleftrightarrow>
     lo \<le> k \<and> k \<le> hi \<and> k \<notin> set used \<and> (\<forall>j. lo \<le> j \<and> j < k \<longrightarrow> j \<in> set used)"
proof (induction used lo hi rule: scan_range.induct)
  case (1 used i hi)
  show ?case
  proof (cases "i \<le> hi")
    case False
    then show ?thesis by (subst scan_range.simps) auto
  next
    case le: True
    show ?thesis
    proof (cases "i \<in> set used")
      case False
      with le have "scan_range used i hi = Some i" by (subst scan_range.simps) simp
      moreover have "(i = k) = (i \<le> k \<and> k \<le> hi \<and> k \<notin> set used \<and> (\<forall>j. i \<le> j \<and> j < k \<longrightarrow> j \<in> set used))"
      proof
        assume "i = k"
        with le False show "i \<le> k \<and> k \<le> hi \<and> k \<notin> set used \<and> (\<forall>j. i \<le> j \<and> j < k \<longrightarrow> j \<in> set used)"
          by auto
      next
        assume r: "i \<le> k \<and> k \<le> hi \<and> k \<notin> set used \<and> (\<forall>j. i \<le> j \<and> j < k \<longrightarrow> j \<in> set used)"
        show "i = k"
        proof (rule ccontr)
          assume "i \<noteq> k"
          with r have "i < k" by simp
          with r have "i \<in> set used" by simp
          with False show False by simp
        qed
      qed
      ultimately show ?thesis by simp
    next
      case True
      with le have eq: "scan_range used i hi = scan_range used (i + 1) hi"
        by (subst scan_range.simps) simp
      have ih: "scan_range used (i + 1) hi = Some k \<longleftrightarrow>
          i + 1 \<le> k \<and> k \<le> hi \<and> k \<notin> set used \<and> (\<forall>j. i + 1 \<le> j \<and> j < k \<longrightarrow> j \<in> set used)"
        using "1.IH" le True by simp
      have "(i + 1 \<le> k \<and> k \<le> hi \<and> k \<notin> set used \<and> (\<forall>j. i + 1 \<le> j \<and> j < k \<longrightarrow> j \<in> set used))
          \<longleftrightarrow> (i \<le> k \<and> k \<le> hi \<and> k \<notin> set used \<and> (\<forall>j. i \<le> j \<and> j < k \<longrightarrow> j \<in> set used))"
        using True by (rule shift_some)
      with eq ih show ?thesis by simp
    qed
  qed
qed

lemma scan_range_None_iff:
  "scan_range used lo hi = None \<longleftrightarrow> (\<forall>j. lo \<le> j \<and> j \<le> hi \<longrightarrow> j \<in> set used)"
proof (induction used lo hi rule: scan_range.induct)
  case (1 used i hi)
  show ?case
  proof (cases "i \<le> hi")
    case False
    then show ?thesis by (subst scan_range.simps) auto
  next
    case le: True
    show ?thesis
    proof (cases "i \<in> set used")
      case False
      with le have "scan_range used i hi = Some i" by (subst scan_range.simps) simp
      with le False show ?thesis by auto
    next
      case True
      with le have eq: "scan_range used i hi = scan_range used (i + 1) hi"
        by (subst scan_range.simps) simp
      have ih: "scan_range used (i + 1) hi = None \<longleftrightarrow> (\<forall>j. i + 1 \<le> j \<and> j \<le> hi \<longrightarrow> j \<in> set used)"
        using "1.IH" le True by simp
      have "(\<forall>j. i + 1 \<le> j \<and> j \<le> hi \<longrightarrow> j \<in> set used) \<longleftrightarrow> (\<forall>j. i \<le> j \<and> j \<le> hi \<longrightarrow> j \<in> set used)"
        using True by (rule shift_none)
      with eq ih show ?thesis by simp
    qed
  qed
qed

lemma getNextVmId_own:
  assumes "reserved inventory = Some res" and "ranges type = OwnRange lo hi"
  shows "getNextVmId type inventory =
           (case scan_range (map template_vmid (templates inventory) @ map vmid (vmids res)) lo hi of
              Some i \<Rightarrow> Inr i | None \<Rightarrow> Inl (NoAvailableVmid type))"
  using assms by (simp add: getNextVmId_def)

lemma used_vmids_Some:
  "reserved inventory = Some res \<Longrightarrow>
     set (map template_vmid (templates inventory) @ map vmid (vmids res)) = used_vmids inventory"
  by (simp add: used_vmids_def)

text \<open>
  C2.  On an inventory with a \<^verbatim>\<open>reserved\<close> block, for each of the four types with its fixed
  range, \<^verbatim>\<open>getNextVmId\<close> returns \<open>k\<close> exactly when \<open>k\<close> is the smallest identifier of the
  range that is neither a template's nor a reserved one; it returns one whenever the range
  has one, and throws \<^verbatim>\<open>No available vmid\<close> when it has none.  With no hosts, one
  template of identifier 300 and an empty ledger, type \<^verbatim>\<open>vm\<close> gets 100.
\<close>

theorem getNextVmId_smallest_unused:
  assumes "reserved inventory = Some res"
    and "(type, lo, hi) \<in> {(''baremetal'', 0, 99), (''vm'', 100, 199), (''lxc'', 200, 299), (''template'', 300, 399)}"
  shows "(\<forall>k. getNextVmId type inventory = Inr k \<longleftrightarrow>
              lo \<le> k \<and> k \<le> hi \<and> k \<notin> used_vmids inventory
              \<and> (\<forall>j. lo \<le> j \<and> j < k \<longrightarrow> j \<in> used_vmids inventory))
       \<and> ((\<exists>i. lo \<le> i \<and> i \<le> hi \<and> i \<notin> used_vmids inventory) \<longrightarrow>
              (\<exists>k. getNextVmId type inventory = Inr k))
       \<and> ((\<forall>i. lo \<le> i \<and> i \<le> hi \<longrightarrow> i \<in> used_vmids inventory) \<longrightarrow>
              getNextVmId type inventory = Inl (NoAvailableVmid type))
       \<and> getNextVmId ''vm''
            \<lparr>proxmox = p, terraform = t, networks = ns, hosts = [],
             templates = [\<lparr>template_name = tn, template_version = tv, template_vmid = 300\<rparr>],
             reserved = Some \<lparr>vmids = [], ips = []\<rparr>\<rparr> = Inr 100"
proof -
  have r: "ranges type = OwnRange lo hi"
    using assms(2) by (auto simp: ranges_def)
  define used where "used = map template_vmid (templates inventory) @ map vmid (vmids res)"
  have u: "set used = used_vmids inventory"
    unfolding used_def using assms(1) by (rule used_vmids_Some)
  have g: "getNextVmId type inventory =
      (case scan_range used lo hi of Some i \<Rightarrow> Inr i | None \<Rightarrow> Inl (NoAvailableVmid type))"
    unfolding used_def using assms(1) r by (rule getNextVmId_own)
  have S: "scan_range used lo hi = Some k \<longleftrightarrow>
              lo \<le> k \<and> k \<le> hi \<and> k \<notin> used_vmids inventory
              \<and> (\<forall>j. lo \<le> j \<and> j < k \<longrightarrow> j \<in> used_vmids inventory)" for k
    by (simp only: scan_range_Some_iff u)
  have N: "scan_range used lo hi = None \<longleftrightarrow>
              (\<forall>j. lo \<le> j \<and> j \<le> hi \<longrightarrow> j \<in> used_vmids inventory)"
    by (simp only: scan_range_None_iff u)
  have a: "\<forall>k. getNextVmId type inventory = Inr k \<longleftrightarrow>
              lo \<le> k \<and> k \<le> hi \<and> k \<notin> used_vmids inventory
              \<and> (\<forall>j. lo \<le> j \<and> j < k \<longrightarrow> j \<in> used_vmids inventory)"
  proof
    fix k
    have "getNextVmId type inventory = Inr k \<longleftrightarrow> scan_range used lo hi = Some k"
      by (simp add: g split: option.splits)
    then show "getNextVmId type inventory = Inr k \<longleftrightarrow>
              lo \<le> k \<and> k \<le> hi \<and> k \<notin> used_vmids inventory
              \<and> (\<forall>j. lo \<le> j \<and> j < k \<longrightarrow> j \<in> used_vmids inventory)"
      by (simp only: S)
  qed
  have b: "(\<exists>i. lo \<le> i \<and> i \<le> hi \<and> i \<notin> used_vmids inventory) \<longrightarrow>
              (\<exists>k. getNextVmId type inventory = Inr k)"
  proof
    assume "\<exists>i. lo \<le> i \<and> i \<le> hi \<and> i \<notin> used_vmids inventory"
    then have "scan_range used lo hi \<noteq> None"
      unfolding N by blast
    then obtain k where "scan_range used lo hi = Some k" by blast
    then show "\<exists>k. getNextVmId type inventory = Inr k"
      by (simp add: g)
  qed
  have c: "(\<forall>i. lo \<le> i \<and> i \<le> hi \<longrightarrow> i \<in> used_vmids inventory) \<longrightarrow>
              getNextVmId type inventory = Inl (NoAvailableVmid type)"
  proof
    assume "\<forall>i. lo \<le> i \<and> i \<le> hi \<longrightarrow> i \<in> used_vmids inventory"
    then have "scan_range used lo hi = None"
      by (simp only: N)
    then show "getNextVmId type inventory = Inl (NoAvailableVmid type)"
      by (simp add: g)
  qed
  have d: "getNextVmId ''vm''
            \<lparr>proxmox = p, terraform = t, networks = ns, hosts = [],
             templates = [\<lparr>template_name = tn, template_version = tv, template_vmid = 300\<rparr>],
             reserved = Some \<lparr>vmids = [], ips = []\<rparr>\<rparr> = Inr 100"
    by (simp add: getNextVmId_def ranges_def scan_range.simps)
  from a b c d show ?thesis by blast
qed

theorem getNextVmId_smallest_unused_witness:
  "getNextVmId ''lxc''
     \<lparr>proxmox = JNull, terraform = JNull, networks = [], hosts = [],
      templates = [\<lparr>template_name = ''debian'', template_version = ''12'', template_vmid = 200\<rparr>],
      reserved = Some \<lparr>vmids = [\<lparr>vmid = 201, refId = ''lxc:id:db''\<rparr>], ips = []\<rparr>\<rparr> = Inr 202"
proof -
  let ?inv = "\<lparr>proxmox = JNull, terraform = JNull, networks = [], hosts = [],
      templates = [\<lparr>template_name = ''debian'', template_version = ''12'', template_vmid = 200\<rparr>],
      reserved = Some \<lparr>vmids = [\<lparr>vmid = 201, refId = ''lxc:id:db''\<rparr>], ips = []\<rparr>\<rparr>"
  have u: "used_vmids ?inv = {200, 201}"
    by (auto simp: used_vmids_def)
  have "\<forall>k. getNextVmId ''lxc'' ?inv = Inr k \<longleftrightarrow>
              200 \<le> k \<and> k \<le> 299 \<and> k \<notin> used_vmids ?inv
              \<and> (\<forall>j. 200 \<le> j \<and> j < k \<longrightarrow> j \<in> used_vmids ?inv)"
    using getNextVmId_smallest_unused [of ?inv "\<lparr>vmids = [\<lparr>vmid = 201, refId = ''lxc:id:db''\<rparr>], ips = []\<rparr>" "''lxc''" 200 299]
    by simp
  moreover have "\<forall>j::int. 200 \<le> j \<and> j < 202 \<longrightarrow> j \<in> {200, 201}" by auto
  ultimately show ?thesis using u by simp
qed

section \<open>The ledger\<close>

lemma find_snoc:
  "find P (xs @ [y]) = (case find P xs of Some x \<Rightarrow> Some x | None \<Rightarrow> if P y then Some y else None)"
  by (induction xs) auto

lemma find_None_filter: "find P xs = None \<Longrightarrow> filter P xs = []"
  by (induction xs) (auto split: if_splits)

lemma find_Some_filter: "find P xs = Some x \<Longrightarrow> filter P xs \<noteq> []"
  by (induction xs) (auto split: if_splits)

lemma init_reserved_Some: "reserved inventory = Some res \<Longrightarrow> init_reserved inventory = inventory"
  by (simp add: init_reserved_def)

lemma init_reserved_None:
  "reserved inventory = None \<Longrightarrow> init_reserved inventory = inventory\<lparr>reserved := Some \<lparr>vmids = [], ips = []\<rparr>\<rparr>"
  by (simp add: init_reserved_def)

lemma reserved_init_reserved:
  "reserved (init_reserved inventory) =
     Some (case reserved inventory of None \<Rightarrow> \<lparr>vmids = [], ips = []\<rparr> | Some res \<Rightarrow> res)"
  by (simp add: init_reserved_def split: option.splits)

lemma init_reserved_idem: "init_reserved (init_reserved inventory) = init_reserved inventory"
  by (simp add: init_reserved_def split: option.splits)

lemma reserveVmId_cases:
  assumes "reserved (init_reserved inventory) = Some res"
  shows "reserveVmId type inventory rid =
     (case find (\<lambda>v. refId v = rid) (vmids res) of
        Some existing \<Rightarrow> (Inr (vmid existing), init_reserved inventory)
      | None \<Rightarrow>
          (case getNextVmId type (init_reserved inventory) of
             Inl e \<Rightarrow> (Inl e, init_reserved inventory)
           | Inr i \<Rightarrow>
               (Inr i, (init_reserved inventory)\<lparr>reserved :=
                   Some (res\<lparr>vmids := vmids res @ [\<lparr>vmid = i, refId = rid\<rparr>]\<rparr>)\<rparr>)))"
  using assms by (simp add: reserveVmId_def Let_def)

lemma reserveIpAddress_cases:
  assumes "reserved (init_reserved inventory) = Some res"
  shows "reserveIpAddress n inventory rid =
     (case find (\<lambda>e. ip_refId e = rid) (ips res) of
        Some existing \<Rightarrow> (Inr (ip existing), init_reserved inventory)
      | None \<Rightarrow>
          (case getNextIpAddress n (init_reserved inventory) of
             Inl e \<Rightarrow> (Inl e, init_reserved inventory)
           | Inr a \<Rightarrow>
               (Inr a, (init_reserved inventory)\<lparr>reserved :=
                   Some (res\<lparr>ips := ips res @ [\<lparr>ip = a, ip_refId = rid\<rparr>]\<rparr>)\<rparr>)))"
  using assms by (simp add: reserveIpAddress_def Let_def)

lemma reserveVmId_again:
  assumes "reserveVmId type inventory rid = (Inr v, inv1)"
  shows "reserveVmId type' inv1 rid = (Inr v, inv1)"
    and "length (filter (\<lambda>e. refId e = rid) (reserved_vmids inventory)) \<le> 1 \<Longrightarrow>
         length (filter (\<lambda>e. refId e = rid) (reserved_vmids inv1)) = 1"
proof -
  obtain res where res: "reserved (init_reserved inventory) = Some res"
    by (simp add: reserved_init_reserved)
  have rv: "reserved_vmids inventory = vmids res"
    using res by (auto simp: reserved_vmids_def reserved_init_reserved split: option.splits)
  note c = reserveVmId_cases [OF res, of type rid]
  show "reserveVmId type' inv1 rid = (Inr v, inv1)"
  proof (cases "find (\<lambda>v. refId v = rid) (vmids res)")
    case (Some existing)
    with c assms have e: "v = vmid existing" "inv1 = init_reserved inventory" by auto
    have "reserved (init_reserved inv1) = Some res"
      using res e by (simp add: init_reserved_idem)
    from reserveVmId_cases [OF this, of type' rid] Some e show ?thesis
      by (simp add: init_reserved_idem)
  next
    case None
    with c assms obtain i where i: "getNextVmId type (init_reserved inventory) = Inr i"
      by (cases "getNextVmId type (init_reserved inventory)") auto
    with c None assms have e: "v = i"
      "inv1 = (init_reserved inventory)\<lparr>reserved := Some (res\<lparr>vmids := vmids res @ [\<lparr>vmid = i, refId = rid\<rparr>]\<rparr>)\<rparr>"
      by auto
    have r1: "reserved inv1 = Some (res\<lparr>vmids := vmids res @ [\<lparr>vmid = i, refId = rid\<rparr>]\<rparr>)"
      using e by simp
    then have i1: "init_reserved inv1 = inv1" by (rule init_reserved_Some)
    have "reserved (init_reserved inv1) = Some (res\<lparr>vmids := vmids res @ [\<lparr>vmid = i, refId = rid\<rparr>]\<rparr>)"
      using r1 i1 by simp
    from reserveVmId_cases [OF this, of type' rid] None e(1) i1 show ?thesis
      by (simp add: find_snoc)
  qed
  show "length (filter (\<lambda>e. refId e = rid) (reserved_vmids inv1)) = 1"
    if le: "length (filter (\<lambda>e. refId e = rid) (reserved_vmids inventory)) \<le> 1"
  proof (cases "find (\<lambda>v. refId v = rid) (vmids res)")
    case (Some existing)
    with c assms have e: "inv1 = init_reserved inventory" by auto
    have "reserved_vmids inv1 = vmids res"
      using res e by (simp add: reserved_vmids_def)
    moreover have "filter (\<lambda>e. refId e = rid) (vmids res) \<noteq> []"
      using Some by (rule find_Some_filter)
    ultimately show ?thesis using le rv
      by (cases "filter (\<lambda>e. refId e = rid) (vmids res)") auto
  next
    case None
    with c assms obtain i where i: "getNextVmId type (init_reserved inventory) = Inr i"
      by (cases "getNextVmId type (init_reserved inventory)") auto
    with c None assms have
      "inv1 = (init_reserved inventory)\<lparr>reserved := Some (res\<lparr>vmids := vmids res @ [\<lparr>vmid = i, refId = rid\<rparr>]\<rparr>)\<rparr>"
      by auto
    then have "reserved_vmids inv1 = vmids res @ [\<lparr>vmid = i, refId = rid\<rparr>]"
      by (simp add: reserved_vmids_def)
    then show ?thesis using find_None_filter [OF None] by simp
  qed
qed

lemma reserveIpAddress_again:
  assumes "reserveIpAddress n inventory rid = (Inr a, inv1)"
  shows "reserveIpAddress n' inv1 rid = (Inr a, inv1)"
    and "length (filter (\<lambda>e. ip_refId e = rid) (reserved_ips inventory)) \<le> 1 \<Longrightarrow>
         length (filter (\<lambda>e. ip_refId e = rid) (reserved_ips inv1)) = 1"
proof -
  obtain res where res: "reserved (init_reserved inventory) = Some res"
    by (simp add: reserved_init_reserved)
  have rv: "reserved_ips inventory = ips res"
    using res by (auto simp: reserved_ips_def reserved_init_reserved split: option.splits)
  note c = reserveIpAddress_cases [OF res, of n rid]
  show "reserveIpAddress n' inv1 rid = (Inr a, inv1)"
  proof (cases "find (\<lambda>e. ip_refId e = rid) (ips res)")
    case (Some existing)
    with c assms have e: "a = ip existing" "inv1 = init_reserved inventory" by auto
    have "reserved (init_reserved inv1) = Some res"
      using res e by (simp add: init_reserved_idem)
    from reserveIpAddress_cases [OF this, of n' rid] Some e show ?thesis
      by (simp add: init_reserved_idem)
  next
    case None
    with c assms obtain i where i: "getNextIpAddress n (init_reserved inventory) = Inr i"
      by (cases "getNextIpAddress n (init_reserved inventory)") auto
    with c None assms have e: "a = i"
      "inv1 = (init_reserved inventory)\<lparr>reserved := Some (res\<lparr>ips := ips res @ [\<lparr>ip = i, ip_refId = rid\<rparr>]\<rparr>)\<rparr>"
      by auto
    have r1: "reserved inv1 = Some (res\<lparr>ips := ips res @ [\<lparr>ip = i, ip_refId = rid\<rparr>]\<rparr>)"
      using e by simp
    then have i1: "init_reserved inv1 = inv1" by (rule init_reserved_Some)
    have "reserved (init_reserved inv1) = Some (res\<lparr>ips := ips res @ [\<lparr>ip = i, ip_refId = rid\<rparr>]\<rparr>)"
      using r1 i1 by simp
    from reserveIpAddress_cases [OF this, of n' rid] None e(1) i1 show ?thesis
      by (simp add: find_snoc)
  qed
  show "length (filter (\<lambda>e. ip_refId e = rid) (reserved_ips inv1)) = 1"
    if le: "length (filter (\<lambda>e. ip_refId e = rid) (reserved_ips inventory)) \<le> 1"
  proof (cases "find (\<lambda>e. ip_refId e = rid) (ips res)")
    case (Some existing)
    with c assms have e: "inv1 = init_reserved inventory" by auto
    have "reserved_ips inv1 = ips res"
      using res e by (simp add: reserved_ips_def)
    moreover have "filter (\<lambda>e. ip_refId e = rid) (ips res) \<noteq> []"
      using Some by (rule find_Some_filter)
    ultimately show ?thesis using le rv
      by (cases "filter (\<lambda>e. ip_refId e = rid) (ips res)") auto
  next
    case None
    with c assms obtain i where i: "getNextIpAddress n (init_reserved inventory) = Inr i"
      by (cases "getNextIpAddress n (init_reserved inventory)") auto
    with c None assms have
      "inv1 = (init_reserved inventory)\<lparr>reserved := Some (res\<lparr>ips := ips res @ [\<lparr>ip = i, ip_refId = rid\<rparr>]\<rparr>)\<rparr>"
      by auto
    then have "reserved_ips inv1 = ips res @ [\<lparr>ip = i, ip_refId = rid\<rparr>]"
      by (simp add: reserved_ips_def)
    then show ?thesis using find_None_filter [OF None] by simp
  qed
qed

section \<open>Scenario A and the ledger's idempotence\<close>

text \<open>The definitions that a concrete IPv4 address is evaluated with.\<close>

lemmas ip_eval =
  isIP_def isIPv4_def split_def is_octet_def is_digit_def digit_value_def digits_value_def
  toBig_def ipv4ToBig_def parseInt_def js_whitespace_def to_double_def BigInt_def
  bigToIp_def bigToIpv4_def toString.simps digit_char_def

lemma getNextIpAddress_lan:
  assumes "networks inventory = [lan sn]" and "hosts inventory = []"
  shows "getNextIpAddress ''lan'' inventory = Inr (with_prefix sn ''10.0.0.2'')"
  using assms
  by (simp add: getNextIpAddress_def lan_def used_addresses_def with_prefix_def ip_eval
      scan_range.simps Let_def)

text \<open>
  C1.  In scenario A the first reservation, for \<^verbatim>\<open>ip:lan:host1\<close>, gets 10.0.0.2 (with the
  subnet's prefix length when it has one).  The second, for \<^verbatim>\<open>ip:lan:host2\<close>, gets the same
  address, not 10.0.0.3: \<^verbatim>\<open>getNextIpAddress\<close> never reads \<^verbatim>\<open>reserved.ips\<close>, and the ledger
  then binds both references to one address.
\<close>

theorem reserveIpAddress_repeats_address:
  "reserveIpAddress ''lan'' (scenario_A sn) ''ip:lan:host1''
     = (Inr (with_prefix sn ''10.0.0.2''),
        (scenario_A sn)\<lparr>reserved := Some \<lparr>vmids = [],
           ips = [\<lparr>ip = with_prefix sn ''10.0.0.2'', ip_refId = ''ip:lan:host1''\<rparr>]\<rparr>\<rparr>)
   \<and> reserveIpAddress ''lan''
        ((scenario_A sn)\<lparr>reserved := Some \<lparr>vmids = [],
           ips = [\<lparr>ip = with_prefix sn ''10.0.0.2'', ip_refId = ''ip:lan:host1''\<rparr>]\<rparr>\<rparr>)
        ''ip:lan:host2''
     = (Inr (with_prefix sn ''10.0.0.2''),
        (scenario_A sn)\<lparr>reserved := Some \<lparr>vmids = [],
           ips = [\<lparr>ip = with_prefix sn ''10.0.0.2'', ip_refId = ''ip:lan:host1''\<rparr>,
                  \<lparr>ip = with_prefix sn ''10.0.0.2'', ip_refId = ''ip:lan:host2''\<rparr>]\<rparr>\<rparr>)
   \<and> with_prefix ''10.0.0.0/24'' ''10.0.0.2'' = ''10.0.0.2/24''
   \<and> with_prefix ''10.0.0.0'' ''10.0.0.2'' = ''10.0.0.2''"
proof -
  let ?one = "(scenario_A sn)\<lparr>reserved := Some \<lparr>vmids = [],
           ips = [\<lparr>ip = with_prefix sn ''10.0.0.2'', ip_refId = ''ip:lan:host1''\<rparr>]\<rparr>\<rparr>"
  have g0: "getNextIpAddress ''lan'' (scenario_A sn) = Inr (with_prefix sn ''10.0.0.2'')"
    by (rule getNextIpAddress_lan) (simp_all add: scenario_A_def)
  have g1: "getNextIpAddress ''lan'' ?one = Inr (with_prefix sn ''10.0.0.2'')"
    by (rule getNextIpAddress_lan) (simp_all add: scenario_A_def)
  have i0: "init_reserved (scenario_A sn) = scenario_A sn"
    by (simp add: init_reserved_def scenario_A_def)
  have i1: "init_reserved ?one = ?one"
    by (simp add: init_reserved_def)
  have a: "reserveIpAddress ''lan'' (scenario_A sn) ''ip:lan:host1'' = (Inr (with_prefix sn ''10.0.0.2''), ?one)"
    using reserveIpAddress_cases [of "scenario_A sn" "\<lparr>vmids = [], ips = []\<rparr>" "''lan''" "''ip:lan:host1''"]
    by (simp add: i0 g0) (simp add: scenario_A_def)
  have b: "reserveIpAddress ''lan'' ?one ''ip:lan:host2''
     = (Inr (with_prefix sn ''10.0.0.2''),
        (scenario_A sn)\<lparr>reserved := Some \<lparr>vmids = [],
           ips = [\<lparr>ip = with_prefix sn ''10.0.0.2'', ip_refId = ''ip:lan:host1''\<rparr>,
                  \<lparr>ip = with_prefix sn ''10.0.0.2'', ip_refId = ''ip:lan:host2''\<rparr>]\<rparr>\<rparr>)"
    using reserveIpAddress_cases [of ?one "\<lparr>vmids = [],
           ips = [\<lparr>ip = with_prefix sn ''10.0.0.2'', ip_refId = ''ip:lan:host1''\<rparr>]\<rparr>" "''lan''" "''ip:lan:host2''"]
    by (simp add: i1 g1)
  have c: "with_prefix ''10.0.0.0/24'' ''10.0.0.2'' = ''10.0.0.2/24''"
    by (simp add: with_prefix_def prefixLen_def split_def)
  have d: "with_prefix ''10.0.0.0'' ''10.0.0.2'' = ''10.0.0.2''"
    by (simp add: with_prefix_def prefixLen_def split_def)
  from a b c d show ?thesis by simp
qed

text \<open>
  C3.  When a reservation returns a value, reserving the same reference again (for whatever
  type or network) returns that value and leaves the inventory as it is; and if the ledger
  had at most one entry for the reference before, it has exactly one after.
\<close>

theorem reserve_same_refId_twice:
  "(reserveVmId type inventory rid = (Inr v, inv1) \<longrightarrow>
      reserveVmId type' inv1 rid = (Inr v, inv1)
      \<and> (length (filter (\<lambda>e. refId e = rid) (reserved_vmids inventory)) \<le> 1 \<longrightarrow>
           length (filter (\<lambda>e. refId e = rid) (reserved_vmids inv1)) = 1))
   \<and> (reserveIpAddress n inventory rid = (Inr a, inv2) \<longrightarrow>
      reserveIpAddress n' inv2 rid = (Inr a, inv2)
      \<and> (length (filter (\<lambda>e. ip_refId e = rid) (reserved_ips inventory)) \<le> 1 \<longrightarrow>
           length (filter (\<lambda>e. ip_refId e = rid) (reserved_ips inv2)) = 1))"
proof (intro conjI impI)
  assume a: "reserveVmId type inventory rid = (Inr v, inv1)"
  show "reserveVmId type' inv1 rid = (Inr v, inv1)"
    using a by (rule reserveVmId_again(1))
  show "length (filter (\<lambda>e. refId e = rid) (reserved_vmids inv1)) = 1"
    if "length (filter (\<lambda>e. refId e = rid) (reserved_vmids inventory)) \<le> 1"
    using a that by (rule reserveVmId_again(2))
next
  assume a: "reserveIpAddress n inventory rid = (Inr a, inv2)"
  show "reserveIpAddress n' inv2 rid = (Inr a, inv2)"
    using a by (rule reserveIpAddress_again(1))
  show "length (filter (\<lambda>e. ip_refId e = rid) (reserved_ips inv2)) = 1"
    if "length (filter (\<lambda>e. ip_refId e = rid) (reserved_ips inventory)) \<le> 1"
    using a that by (rule reserveIpAddress_again(2))
qed

theorem reserve_same_refId_twice_witness:
  "reserveVmId ''vm'' (scenario_A ''10.0.0.0/24'') ''vm:id:web''
     = (Inr 100, (scenario_A ''10.0.0.0/24'')\<lparr>reserved :=
          Some \<lparr>vmids = [\<lparr>vmid = 100, refId = ''vm:id:web''\<rparr>], ips = []\<rparr>\<rparr>)
   \<and> reserveVmId ''vm'' ((scenario_A ''10.0.0.0/24'')\<lparr>reserved :=
          Some \<lparr>vmids = [\<lparr>vmid = 100, refId = ''vm:id:web''\<rparr>], ips = []\<rparr>\<rparr>) ''vm:id:web''
     = (Inr 100, (scenario_A ''10.0.0.0/24'')\<lparr>reserved :=
          Some \<lparr>vmids = [\<lparr>vmid = 100, refId = ''vm:id:web''\<rparr>], ips = []\<rparr>\<rparr>)
   \<and> reserveIpAddress ''lan'' (scenario_A ''10.0.0.0/24'') ''ip:lan:host1''
     = (Inr ''10.0.0.2/24'', (scenario_A ''10.0.0.0/24'')\<lparr>reserved :=
          Some \<lparr>vmids = [], ips = [\<lparr>ip = ''10.0.0.2/24'', ip_refId = ''ip:lan:host1''\<rparr>]\<rparr>\<rparr>)
   \<and> reserveIpAddress ''lan'' ((scenario_A ''10.0.0.0/24'')\<lparr>reserved :=
          Some \<lparr>vmids = [], ips = [\<lparr>ip = ''10.0.0.2/24'', ip_refId = ''ip:lan:host1''\<rparr>]\<rparr>\<rparr>) ''ip:lan:host1''
     = (Inr ''10.0.0.2/24'', (scenario_A ''10.0.0.0/24'')\<lparr>reserved :=
          Some \<lparr>vmids = [], ips = [\<lparr>ip = ''10.0.0.2/24'', ip_refId = ''ip:lan:host1''\<rparr>]\<rparr>\<rparr>)
   \<and> length (filter (\<lambda>e. ip_refId e = ''ip:lan:host1'')
        (reserved_ips ((scenario_A ''10.0.0.0/24'')\<lparr>reserved :=
          Some \<lparr>vmids = [], ips = [\<lparr>ip = ''10.0.0.2/24'', ip_refId = ''ip:lan:host1''\<rparr>]\<rparr>\<rparr>))) = 1"
proof -
  let ?A = "scenario_A ''10.0.0.0/24''"
  let ?V = "?A\<lparr>reserved := Some \<lparr>vmids = [\<lparr>vmid = 100, refId = ''vm:id:web''\<rparr>], ips = []\<rparr>\<rparr>"
  let ?I = "?A\<lparr>reserved := Some \<lparr>vmids = [], ips = [\<lparr>ip = ''10.0.0.2/24'', ip_refId = ''ip:lan:host1''\<rparr>]\<rparr>\<rparr>"
  have p: "with_prefix ''10.0.0.0/24'' ''10.0.0.2'' = ''10.0.0.2/24''"
    by (simp add: with_prefix_def prefixLen_def split_def)
  have v: "reserveVmId ''vm'' ?A ''vm:id:web'' = (Inr 100, ?V)"
    by (simp add: reserveVmId_def init_reserved_def scenario_A_def getNextVmId_def ranges_def
        scan_range.simps Let_def)
  have g: "getNextIpAddress ''lan'' ?A = Inr ''10.0.0.2/24''"
    using getNextIpAddress_lan [of ?A "''10.0.0.0/24''"] by (simp add: scenario_A_def p)
  have i0: "init_reserved ?A = ?A"
    by (simp add: init_reserved_def scenario_A_def)
  have i: "reserveIpAddress ''lan'' ?A ''ip:lan:host1'' = (Inr ''10.0.0.2/24'', ?I)"
    using reserveIpAddress_cases [of ?A "\<lparr>vmids = [], ips = []\<rparr>" "''lan''" "''ip:lan:host1''"]
    by (simp add: i0 g) (simp add: scenario_A_def)
  have e: "reserved_ips ?A = []" "reserved_vmids ?A = []"
    by (simp_all add: reserved_ips_def reserved_vmids_def scenario_A_def)
  from reserve_same_refId_twice [where type = "''vm''" and inventory = ?A and rid = "''vm:id:web''"
      and v = 100 and ?inv1.0 = ?V and type' = "''vm''"]
    reserve_same_refId_twice [where n = "''lan''" and inventory = ?A and rid = "''ip:lan:host1''"
      and a = "''10.0.0.2/24''" and ?inv2.0 = ?I and n' = "''lan''"] v i e
  show ?thesis by simp
qed

section \<open>Release, and a missing \<^verbatim>\<open>reserved\<close> block\<close>

lemma findIndex_None_iff: "findIndex P xs = None \<longleftrightarrow> (\<forall>x \<in> set xs. \<not> P x)"
  by (induction xs) auto

lemma findIndex_Some:
  "findIndex P xs = Some i \<Longrightarrow> i < length xs \<and> P (xs ! i) \<and> (\<forall>j < i. \<not> P (xs ! j))"
proof (induction xs arbitrary: i)
  case Nil
  then show ?case by simp
next
  case (Cons x xs)
  show ?case
  proof (cases "P x")
    case True
    with Cons.prems show ?thesis by simp
  next
    case False
    with Cons.prems obtain k where k: "findIndex P xs = Some k" "i = Suc k"
      by (auto split: if_splits)
    from Cons.IH [OF k(1)] False k(2) show ?thesis
      by (auto simp: less_Suc_eq_0_disj)
  qed
qed

lemma length_splice1: "i < length xs \<Longrightarrow> length (splice1 i xs) = length xs - 1"
  by (simp add: splice1_def)

text \<open>
  C4.  Releasing a reference that the ledger does not hold is no silent no-op: when
  \<^verbatim>\<open>reserved.vmids\<close> is non-empty and has no entry for the reference, \<^verbatim>\<open>releaseVmId\<close>
  throws a \<^verbatim>\<open>TypeError\<close> (it reads \<^verbatim>\<open>vmids[-1].vmid\<close>), and \<^verbatim>\<open>releaseIpAddress\<close> throws
  it whenever \<^verbatim>\<open>reserved.ips\<close> has no entry for the reference, empty or not.  The inventory
  is left as it was.
\<close>

theorem release_unbound_refId_throws:
  "(reserved inventory = Some res \<and> vmids res \<noteq> [] \<and> rid \<notin> refId ` set (vmids res) \<longrightarrow>
      releaseVmId inventory rid = (Inl TypeError, inventory))
   \<and> (reserved inventory = Some res \<and> rid \<notin> ip_refId ` set (ips res) \<longrightarrow>
      releaseIpAddress inventory rid = (Inl TypeError, inventory))
   \<and> releaseVmId
        (inventory\<lparr>reserved := Some \<lparr>vmids = [\<lparr>vmid = 100, refId = ''vm:id:web''\<rparr>], ips = []\<rparr>\<rparr>)
        ''vm:id:db''
      = (Inl TypeError,
         inventory\<lparr>reserved := Some \<lparr>vmids = [\<lparr>vmid = 100, refId = ''vm:id:web''\<rparr>], ips = []\<rparr>\<rparr>)
   \<and> releaseIpAddress (inventory\<lparr>reserved := Some \<lparr>vmids = [], ips = []\<rparr>\<rparr>) ''ip:lan:host1''
      = (Inl TypeError, inventory\<lparr>reserved := Some \<lparr>vmids = [], ips = []\<rparr>\<rparr>)"
proof (intro conjI impI)
  assume a: "reserved inventory = Some res \<and> vmids res \<noteq> [] \<and> rid \<notin> refId ` set (vmids res)"
  then have "findIndex (\<lambda>v. refId v = rid) (vmids res) = None"
    by (auto simp: findIndex_None_iff)
  with a show "releaseVmId inventory rid = (Inl TypeError, inventory)"
    by (simp add: releaseVmId_def)
next
  assume a: "reserved inventory = Some res \<and> rid \<notin> ip_refId ` set (ips res)"
  then have "findIndex (\<lambda>e. ip_refId e = rid) (ips res) = None"
    by (auto simp: findIndex_None_iff)
  with a show "releaseIpAddress inventory rid = (Inl TypeError, inventory)"
    by (simp add: releaseIpAddress_def)
next
  show "releaseVmId
        (inventory\<lparr>reserved := Some \<lparr>vmids = [\<lparr>vmid = 100, refId = ''vm:id:web''\<rparr>], ips = []\<rparr>\<rparr>)
        ''vm:id:db''
      = (Inl TypeError,
         inventory\<lparr>reserved := Some \<lparr>vmids = [\<lparr>vmid = 100, refId = ''vm:id:web''\<rparr>], ips = []\<rparr>\<rparr>)"
    by (simp add: releaseVmId_def)
next
  show "releaseIpAddress (inventory\<lparr>reserved := Some \<lparr>vmids = [], ips = []\<rparr>\<rparr>) ''ip:lan:host1''
      = (Inl TypeError, inventory\<lparr>reserved := Some \<lparr>vmids = [], ips = []\<rparr>\<rparr>)"
    by (simp add: releaseIpAddress_def)
qed

theorem release_unbound_refId_throws_witness:
  "releaseVmId
     ((scenario_A ''10.0.0.0/24'')\<lparr>reserved :=
         Some \<lparr>vmids = [\<lparr>vmid = 100, refId = ''vm:id:web''\<rparr>],
               ips = [\<lparr>ip = ''10.0.0.2/24'', ip_refId = ''ip:lan:host1''\<rparr>]\<rparr>\<rparr>)
     ''vm:id:db''
   = (Inl TypeError,
      (scenario_A ''10.0.0.0/24'')\<lparr>reserved :=
         Some \<lparr>vmids = [\<lparr>vmid = 100, refId = ''vm:id:web''\<rparr>],
               ips = [\<lparr>ip = ''10.0.0.2/24'', ip_refId = ''ip:lan:host1''\<rparr>]\<rparr>\<rparr>)
   \<and> releaseIpAddress
     ((scenario_A ''10.0.0.0/24'')\<lparr>reserved :=
         Some \<lparr>vmids = [\<lparr>vmid = 100, refId = ''vm:id:web''\<rparr>],
               ips = [\<lparr>ip = ''10.0.0.2/24'', ip_refId = ''ip:lan:host1''\<rparr>]\<rparr>\<rparr>)
     ''ip:lan:host2''
   = (Inl TypeError,
      (scenario_A ''10.0.0.0/24'')\<lparr>reserved :=
         Some \<lparr>vmids = [\<lparr>vmid = 100, refId = ''vm:id:web''\<rparr>],
               ips = [\<lparr>ip = ''10.0.0.2/24'', ip_refId = ''ip:lan:host1''\<rparr>]\<rparr>\<rparr>)"
  using release_unbound_refId_throws
    [where inventory = "(scenario_A ''10.0.0.0/24'')\<lparr>reserved :=
         Some \<lparr>vmids = [\<lparr>vmid = 100, refId = ''vm:id:web''\<rparr>],
               ips = [\<lparr>ip = ''10.0.0.2/24'', ip_refId = ''ip:lan:host1''\<rparr>]\<rparr>\<rparr>"
       and res = "\<lparr>vmids = [\<lparr>vmid = 100, refId = ''vm:id:web''\<rparr>],
               ips = [\<lparr>ip = ''10.0.0.2/24'', ip_refId = ''ip:lan:host1''\<rparr>]\<rparr>"
       and rid = "''vm:id:db''"]
    release_unbound_refId_throws
    [where inventory = "(scenario_A ''10.0.0.0/24'')\<lparr>reserved :=
         Some \<lparr>vmids = [\<lparr>vmid = 100, refId = ''vm:id:web''\<rparr>],
               ips = [\<lparr>ip = ''10.0.0.2/24'', ip_refId = ''ip:lan:host1''\<rparr>]\<rparr>\<rparr>"
       and res = "\<lparr>vmids = [\<lparr>vmid = 100, refId = ''vm:id:web''\<rparr>],
               ips = [\<lparr>ip = ''10.0.0.2/24'', ip_refId = ''ip:lan:host1''\<rparr>]\<rparr>"
       and rid = "''ip:lan:host2''"]
  by simp

text \<open>
  A bound reference is released as the source means it: the value of its first entry is
  returned and that entry is removed.
\<close>

lemma release_bound_refId:
  "(reserved inventory = Some res \<and> findIndex (\<lambda>v. refId v = rid) (vmids res) = Some i \<longrightarrow>
      releaseVmId inventory rid =
        (Inr (Some (vmid (vmids res ! i))),
         inventory\<lparr>reserved := Some (res\<lparr>vmids := splice1 i (vmids res)\<rparr>)\<rparr>))
   \<and> (reserved inventory = Some res \<and> findIndex (\<lambda>e. ip_refId e = rid) (ips res) = Some i \<longrightarrow>
      releaseIpAddress inventory rid =
        (Inr (Some (ip (ips res ! i))),
         inventory\<lparr>reserved := Some (res\<lparr>ips := splice1 i (ips res)\<rparr>)\<rparr>))"
  by (auto simp: releaseVmId_def releaseIpAddress_def)

lemma reduce_shift_error: "reduce_shift b acc xs = Inl e \<Longrightarrow> e = RangeError"
  by (induction xs arbitrary: acc) (auto simp: BigInt_def split: number.splits sum.splits)

lemma toBig_error: "toBig v x = Inl e \<Longrightarrow> e = RangeError"
  by (auto simp: toBig_def ipv4ToBig_def ipv6ToBig_def expandIpv6_def Let_def
      dest: reduce_shift_error split: if_splits sum.splits)

lemma toBig_all_error: "toBig_all v xs = Inl e \<Longrightarrow> e = RangeError"
  by (induction xs arbitrary: e) (auto dest: toBig_error split: sum.splits)

lemma getNextIpAddress_error:
  "getNextIpAddress n inventory = Inl e \<Longrightarrow>
     e \<in> {NetworkNotFound n, InvalidStaticRange n, InvalidIpVersion, StartGreaterThanEnd,
           NoAvailableIp n, RangeError}"
  by (auto simp: getNextIpAddress_def Let_def
      dest: toBig_error toBig_all_error split: option.splits if_splits sum.splits)

text \<open>
  C10.  On an inventory with no \<^verbatim>\<open>reserved\<close> block, \<^verbatim>\<open>reserveVmId\<close> and
  \<^verbatim>\<open>reserveIpAddress\<close> do what they do on the same inventory with two empty lists; neither
  throws a \<^verbatim>\<open>TypeError\<close>; and the inventory is left with a \<^verbatim>\<open>reserved\<close> block that holds
  the one new entry when a value is returned (and two empty lists when the allocation throws).
\<close>

theorem reserve_initialises_reserved:
  assumes "reserved inventory = None"
  shows "reserveVmId type inventory rid
           = reserveVmId type (inventory\<lparr>reserved := Some \<lparr>vmids = [], ips = []\<rparr>\<rparr>) rid
       \<and> reserveIpAddress n inventory rid
           = reserveIpAddress n (inventory\<lparr>reserved := Some \<lparr>vmids = [], ips = []\<rparr>\<rparr>) rid
       \<and> fst (reserveVmId type inventory rid) \<noteq> Inl TypeError
       \<and> fst (reserveIpAddress n inventory rid) \<noteq> Inl TypeError
       \<and> reserved (snd (reserveVmId type inventory rid))
           = Some (case fst (reserveVmId type inventory rid) of
                     Inr i \<Rightarrow> \<lparr>vmids = [\<lparr>vmid = i, refId = rid\<rparr>], ips = []\<rparr>
                   | Inl e \<Rightarrow> \<lparr>vmids = [], ips = []\<rparr>)
       \<and> reserved (snd (reserveIpAddress n inventory rid))
           = Some (case fst (reserveIpAddress n inventory rid) of
                     Inr a \<Rightarrow> \<lparr>vmids = [], ips = [\<lparr>ip = a, ip_refId = rid\<rparr>]\<rparr>
                   | Inl e \<Rightarrow> \<lparr>vmids = [], ips = []\<rparr>)"
proof -
  let ?E = "inventory\<lparr>reserved := Some \<lparr>vmids = [], ips = []\<rparr>\<rparr>"
  have i: "init_reserved inventory = ?E" "init_reserved ?E = ?E"
    using assms by (simp_all add: init_reserved_def)
  have r: "reserved (init_reserved inventory) = Some \<lparr>vmids = [], ips = []\<rparr>"
    by (simp add: i)
  have v: "reserveVmId type inventory rid =
      (case getNextVmId type ?E of
         Inl e \<Rightarrow> (Inl e, ?E)
       | Inr k \<Rightarrow> (Inr k, inventory\<lparr>reserved := Some \<lparr>vmids = [\<lparr>vmid = k, refId = rid\<rparr>], ips = []\<rparr>\<rparr>))"
    using reserveVmId_cases [OF r, of type rid] by (simp add: i split: sum.splits)
  have a: "reserveIpAddress n inventory rid =
      (case getNextIpAddress n ?E of
         Inl e \<Rightarrow> (Inl e, ?E)
       | Inr k \<Rightarrow> (Inr k, inventory\<lparr>reserved := Some \<lparr>vmids = [], ips = [\<lparr>ip = k, ip_refId = rid\<rparr>]\<rparr>\<rparr>))"
    using reserveIpAddress_cases [OF r, of n rid] by (simp add: i split: sum.splits)
  have e1: "reserveVmId type inventory rid = reserveVmId type ?E rid"
    by (simp add: reserveVmId_def i)
  have e2: "reserveIpAddress n inventory rid = reserveIpAddress n ?E rid"
    by (simp add: reserveIpAddress_def i)
  have t1: "getNextVmId type ?E \<noteq> Inl TypeError"
    by (simp add: getNextVmId_def Let_def split: range_lookup.splits option.splits)
  have t2: "getNextIpAddress n ?E \<noteq> Inl TypeError"
    using getNextIpAddress_error [of n ?E TypeError] by auto
  have c3: "fst (reserveVmId type inventory rid) \<noteq> Inl TypeError"
    using t1 by (cases "getNextVmId type ?E") (simp_all add: v)
  have c4: "fst (reserveIpAddress n inventory rid) \<noteq> Inl TypeError"
    using t2 by (cases "getNextIpAddress n ?E") (simp_all add: a)
  have c5: "reserved (snd (reserveVmId type inventory rid))
           = Some (case fst (reserveVmId type inventory rid) of
                     Inr i \<Rightarrow> \<lparr>vmids = [\<lparr>vmid = i, refId = rid\<rparr>], ips = []\<rparr>
                   | Inl e \<Rightarrow> \<lparr>vmids = [], ips = []\<rparr>)"
    by (cases "getNextVmId type ?E") (simp_all add: v)
  have c6: "reserved (snd (reserveIpAddress n inventory rid))
           = Some (case fst (reserveIpAddress n inventory rid) of
                     Inr a \<Rightarrow> \<lparr>vmids = [], ips = [\<lparr>ip = a, ip_refId = rid\<rparr>]\<rparr>
                   | Inl e \<Rightarrow> \<lparr>vmids = [], ips = []\<rparr>)"
    by (cases "getNextIpAddress n ?E") (simp_all add: a)
  from e1 e2 c3 c4 c5 c6 show ?thesis by blast
qed

theorem reserve_initialises_reserved_witness:
  "reserveVmId ''vm'' ((scenario_A ''10.0.0.0/24'')\<lparr>reserved := None\<rparr>) ''vm:id:web''
     = (Inr 100, (scenario_A ''10.0.0.0/24'')\<lparr>reserved :=
          Some \<lparr>vmids = [\<lparr>vmid = 100, refId = ''vm:id:web''\<rparr>], ips = []\<rparr>\<rparr>)
   \<and> reserveIpAddress ''lan'' ((scenario_A ''10.0.0.0/24'')\<lparr>reserved := None\<rparr>) ''ip:lan:host1''
     = (Inr ''10.0.0.2/24'', (scenario_A ''10.0.0.0/24'')\<lparr>reserved :=
          Some \<lparr>vmids = [], ips = [\<lparr>ip = ''10.0.0.2/24'', ip_refId = ''ip:lan:host1''\<rparr>]\<rparr>\<rparr>)"
proof -
  let ?A = "scenario_A ''10.0.0.0/24''"
  let ?N = "?A\<lparr>reserved := None\<rparr>"
  have n: "reserved ?N = None" by simp
  have s: "?N\<lparr>reserved := Some \<lparr>vmids = [], ips = []\<rparr>\<rparr> = ?A"
    by (simp add: scenario_A_def)
  have i0: "init_reserved ?A = ?A"
    by (simp add: init_reserved_def scenario_A_def)
  have r0: "reserved (init_reserved ?A) = Some \<lparr>vmids = [], ips = []\<rparr>"
    by (simp add: init_reserved_def scenario_A_def)
  have p: "with_prefix ''10.0.0.0/24'' ''10.0.0.2'' = ''10.0.0.2/24''"
    by (simp add: with_prefix_def prefixLen_def split_def)
  have g: "getNextIpAddress ''lan'' ?A = Inr ''10.0.0.2/24''"
    using getNextIpAddress_lan [of ?A "''10.0.0.0/24''"] by (simp add: scenario_A_def p)
  have gv: "getNextVmId ''vm'' ?A = Inr 100"
    by (simp add: scenario_A_def getNextVmId_def ranges_def scan_range.simps)
  have v: "reserveVmId ''vm'' ?A ''vm:id:web''
     = (Inr 100, ?A\<lparr>reserved := Some \<lparr>vmids = [\<lparr>vmid = 100, refId = ''vm:id:web''\<rparr>], ips = []\<rparr>\<rparr>)"
    using reserveVmId_cases [OF r0, of "''vm''" "''vm:id:web''"] by (simp add: i0 gv)
  have a: "reserveIpAddress ''lan'' ?A ''ip:lan:host1''
     = (Inr ''10.0.0.2/24'', ?A\<lparr>reserved :=
          Some \<lparr>vmids = [], ips = [\<lparr>ip = ''10.0.0.2/24'', ip_refId = ''ip:lan:host1''\<rparr>]\<rparr>\<rparr>)"
    using reserveIpAddress_cases [OF r0, of "''lan''" "''ip:lan:host1''"] by (simp add: i0 g)
  from reserve_initialises_reserved [OF n, of "''vm''" "''vm:id:web''" "''lan''"]
  have "reserveVmId ''vm'' ?N ''vm:id:web'' = reserveVmId ''vm'' ?A ''vm:id:web''"
    by (simp only: s)
  moreover
  from reserve_initialises_reserved [OF n, of "''vm''" "''ip:lan:host1''" "''lan''"]
  have "reserveIpAddress ''lan'' ?N ''ip:lan:host1'' = reserveIpAddress ''lan'' ?A ''ip:lan:host1''"
    by (simp only: s)
  ultimately show ?thesis using v a by simp
qed

section \<open>References and persistence\<close>



lemma substitution_plain: "CHR ''$'' \<notin> set r \<Longrightarrow> substitution m pre post r = r"
  by (induction m pre post r rule: substitution.induct) auto












text \<open>
  One round of each pass.  Where the lookup of an inventory or parent-configuration token
  returns \<^verbatim>\<open>null\<close>, the text \<^verbatim>\<open>null\<close> takes the place of the token's first occurrence.
  Where no secret has the name of a vault token, the text is left as it is.
\<close>

lemma failed_lookup_overwritten:
  assumes "getRefValue (drop prefix (filter (\<lambda>c. c \<noteq> CHR ''{'' \<and> c \<noteq> CHR ''}'') m)) root
             = Returns JNull"
  shows "refs_loop prefix root (m # ms) strConfig
           = refs_loop prefix root ms (replace strConfig m ''null'')"
  using assms by simp

lemma replace_by_null:
  "indexOf strConfig m = Some i \<Longrightarrow>
     replace strConfig m ''null'' = take i strConfig @ ''null'' @ drop (i + length m) strConfig"
  by (simp add: replace_def)

lemma absent_secret_skipped:
  assumes "find_by_name
             (hd (split (replace (filter (\<lambda>c. c \<noteq> CHR 0x22) m) ''bw:'' []) ''.''))
             secrets = Returns JUndefined"
  shows "fill_loop secrets (m # ms) strConfig = fill_loop secrets ms strConfig"
  using assms by (simp add: Let_def)

text \<open>
  C6.  An inventory or parent-configuration token whose lookup fails is not left intact:
  \<^verbatim>\<open>getRefValue\<close> returns \<^verbatim>\<open>null\<close> and the pass writes the text \<^verbatim>\<open>null\<close> over the
  token.  A vault token whose path runs through a missing field makes \<^verbatim>\<open>fill\<close> throw.
\<close>

theorem unresolved_reference_not_left_intact:
  "populateInventoryRefs
      (JObj [(''gateway'', JStr ''{inventory:networks.wan.gateway}'')])
      (JObj [(''networks'', JArr [JObj [(''name'', JStr ''lan''), (''gateway'', JStr ''10.0.0.1'')]])])
     = Returns (stringify (JObj [(''gateway'', JStr ''null'')]))
   \<and> populateUpperLevelRefs (JObj [(''user'', JStr ''{config:owner}'')])
     = Returns (stringify (JObj [(''user'', JStr ''null'')]))
   \<and> fill [JObj [(''name'', JStr ''pve''), (''login'', JObj [(''password'', JStr ''s3cret'')])]]
        (JObj [(''pw'', JStr ''bw:pve.notes.user'')])
     = Throws TypeError"
  by (simp add: populateInventoryRefs_def populateUpperLevelRefs_def fill_def
      inventoryRefRegex_def upperLevelRegex_def bwRefRegex_def quote_def quote_char_def
      getRefValue_def split_def item_name_def get_property_def replace_def Let_def
      object_prototype_keys_def)

text \<open>
  The vault pass does leave a token intact when no secret has its name or its path ends on a
  missing field, and substitutes a string it finds.
\<close>

lemma fill_examples:
  "fill [JObj [(''name'', JStr ''pve''), (''login'', JObj [(''password'', JStr ''s3cret'')])]]
        (JObj [(''pw'', JStr ''bw:vault.login.password'')])
     = Returns (stringify (JObj [(''pw'', JStr ''bw:vault.login.password'')]))"
  "fill [JObj [(''name'', JStr ''pve''), (''login'', JObj [(''password'', JStr ''s3cret'')])]]
        (JObj [(''pw'', JStr ''bw:pve.login.user'')])
     = Returns (stringify (JObj [(''pw'', JStr ''bw:pve.login.user'')]))"
  "fill [JObj [(''name'', JStr ''pve''), (''login'', JObj [(''password'', JStr ''s3cret'')])]]
        (JObj [(''pw'', JStr ''bw:pve.login.password'')])
     = Returns (stringify (JObj [(''pw'', JStr ''s3cret'')]))"
  by (simp_all add: fill_def bwRefRegex_def quote_def quote_char_def
      split_def item_name_def get_property_def replace_def Let_def object_prototype_keys_def)

section \<open>The address scan\<close>

lemma isIP_empty: "isIP [] = 0"
  by (simp add: isIP_def isIPv4_def split_def isIPv6_def matches_def v6Str_def alts_def
      between_def v6Seg_def colon_def zone_def v4Str_def v4Seg_def dec_digit_def Let_def)

lemma getNextIpAddress_scan:
  assumes "find (\<lambda>n. name n = networkName) (networks inventory) = Some netCfg"
    and "isIP (range_start (static_range netCfg)) = version"
    and "isIP (range_end (static_range netCfg)) = version"
    and "version \<noteq> 0"
    and "toBig version (range_start (static_range netCfg)) = Inr startBig"
    and "toBig version (range_end (static_range netCfg)) = Inr endBig"
    and "startBig \<le> endBig"
    and "toBig_all version (used_addresses netCfg networkName inventory) = Inr used"
  shows "getNextIpAddress networkName inventory =
           (case scan_range used startBig endBig of
              None \<Rightarrow> Inl (NoAvailableIp networkName)
            | Some k \<Rightarrow> Inr (with_prefix (subnet netCfg) (bigToIp version k)))"
proof -
  have "range_start (static_range netCfg) \<noteq> []" "range_end (static_range netCfg) \<noteq> []"
    using assms(2,3,4) isIP_empty by auto
  with assms show ?thesis
    by (simp add: getNextIpAddress_def Let_def with_prefix_def split: option.splits)
qed

lemma scenario_C_eval: "getNextIpAddress ''lan'' scenario_C = Inl (NoAvailableIp ''lan'')"
  by (simp add: scenario_C_def getNextIpAddress_def used_addresses_def ip_eval
      scan_range.simps Let_def)

lemma mixed_eval: "getNextIpAddress ''lan'' mixed_families = Inl RangeError"
  by (simp add: mixed_families_def getNextIpAddress_def used_addresses_def ip_eval
      scan_range.simps Let_def)

lemma digits_value_snoc:
  "digits_value r (z @ [c]) = digits_value r z * int r + int (the (digit_value c))"
  by (simp add: digits_value_def)

lemma digits_value_nonneg: "0 \<le> digits_value r z"
  by (induction z rule: rev_induct) (simp_all add: digits_value_snoc digits_value_def)

lemma is_digit_10_code: "is_digit 10 c \<Longrightarrow> 48 \<le> (of_char c :: nat) \<and> (of_char c :: nat) \<le> 57"
  by (auto simp: is_digit_def digit_value_def Let_def split: if_splits option.splits)

lemma is_digit_10_not_space: "is_digit 10 c \<Longrightarrow> \<not> js_whitespace c"
  by (auto simp: js_whitespace_def dest!: is_digit_10_code)

lemma is_digit_10_not_sign: "is_digit 10 c \<Longrightarrow> c \<noteq> CHR ''+'' \<and> c \<noteq> CHR ''-'' \<and> c \<noteq> CHR ''.''"
  by (auto dest!: is_digit_10_code)

lemma parseInt_digits:
  assumes "z \<noteq> []" and "list_all (is_digit 10) z" and "digits_value 10 z < 2 ^ 53"
  shows "parseInt z 10 = Finite (digits_value 10 z)"
proof -
  from assms(1) obtain c cs where z: "z = c # cs" by (cases z) auto
  with assms(2) have c: "is_digit 10 c" by simp
  have d: "dropWhile js_whitespace (c # cs) = c # cs"
    using is_digit_10_not_space [OF c] by simp
  have t: "takeWhile (is_digit 10) (c # cs) = c # cs"
    using assms(2) unfolding z by (simp add: list_all_iff)
  have n: "c \<noteq> CHR ''+''" "c \<noteq> CHR ''-''"
    using is_digit_10_not_sign [OF c] by simp_all
  have "parseInt (c # cs) 10 = Finite (digits_value 10 (c # cs))"
    unfolding parseInt_def d Let_def
    using n assms(3) t unfolding z by (simp add: to_double_def)
  then show ?thesis by (simp add: z)
qed

lemma length_4: "length xs = 4 \<Longrightarrow> \<exists>a b c d. xs = [a, b, c, d]"
  by (auto simp: numeral_eq_Suc length_Suc_conv)

lemma is_octet_parseInt:
  assumes "is_octet p"
  shows "parseInt p 10 = Finite (digits_value 10 p)"
    and "0 \<le> digits_value 10 p" and "digits_value 10 p \<le> 255"
proof -
  from assms have a: "p \<noteq> []" "list_all (is_digit 10) p" "digits_value 10 p \<le> 255"
    by (auto simp: is_octet_def)
  then have "digits_value 10 p < 2 ^ 53" by simp
  with a show "parseInt p 10 = Finite (digits_value 10 p)"
    by (intro parseInt_digits)
  show "0 \<le> digits_value 10 p" by (rule digits_value_nonneg)
  show "digits_value 10 p \<le> 255" by (rule a(3))
qed

lemma isIPv4_value:
  assumes "isIPv4 s"
  shows "\<exists>v. ipv4ToBig s = Inr v \<and> 0 \<le> v \<and> v < 2 ^ 32"
proof -
  from assms have l: "length (split s ''.'') = 4" and al: "list_all is_octet (split s ''.'')"
    by (simp_all add: isIPv4_def Let_def)
  from length_4 [OF l] obtain a b c d where sp: "split s ''.'' = [a, b, c, d]"
    by blast
  with al have o: "is_octet a" "is_octet b" "is_octet c" "is_octet d"
    by simp_all
  let ?v = "((digits_value 10 a * 256 + digits_value 10 b) * 256 + digits_value 10 c) * 256
              + digits_value 10 d"
  have "ipv4ToBig s = Inr ?v"
    by (simp add: ipv4ToBig_def sp is_octet_parseInt(1) [OF o(1)] is_octet_parseInt(1) [OF o(2)]
        is_octet_parseInt(1) [OF o(3)] is_octet_parseInt(1) [OF o(4)] BigInt_def)
  moreover have "0 \<le> ?v" "?v < 2 ^ 32"
    using is_octet_parseInt(2,3) [OF o(1)] is_octet_parseInt(2,3) [OF o(2)]
      is_octet_parseInt(2,3) [OF o(3)] is_octet_parseInt(2,3) [OF o(4)]
    by simp_all
  ultimately show ?thesis by blast
qed

lemma isIP_4: "isIP s = 4 \<longleftrightarrow> isIPv4 s"
  by (simp add: isIP_def)

lemma toBig_all_ipv4:
  "\<forall>x \<in> set xs. isIPv4 x \<Longrightarrow> \<exists>used. toBig_all 4 xs = Inr used"
proof (induction xs)
  case Nil
  then show ?case by simp
next
  case (Cons x xs)
  then obtain used where "toBig_all 4 xs = Inr used" by auto
  moreover from Cons.prems obtain v where "ipv4ToBig x = Inr v"
    using isIPv4_value [of x] by auto
  ultimately show ?case by (simp add: toBig_def)
qed

text \<open>The text written for an IPv4 value reads back as that value.\<close>

lemma digit_char_value: "d < 10 \<Longrightarrow> digit_value (digit_char d) = Some d \<and> digit_char d \<noteq> CHR ''.''"
proof -
  assume "d < 10"
  then have "d \<in> {0, 1, 2, 3, 4, 5, 6, 7, 8, 9}" by auto
  then show ?thesis
    by (auto simp: digit_char_def digit_value_def)
qed

lemma toString_10:
  "r = 10 \<Longrightarrow>
     toString n r \<noteq> [] \<and> list_all (is_digit 10) (toString n r)
     \<and> digits_value 10 (toString n r) = int n \<and> CHR ''.'' \<notin> set (toString n r)"
proof (induction n r rule: toString.induct)
  case (1 n radix)
  show ?case
  proof (cases "n < 10")
    case True
    then have "toString n radix = [digit_char n]"
      using "1.prems" by (subst toString.simps) simp
    with digit_char_value [OF True] show ?thesis
      by (auto simp: is_digit_def digits_value_def True)
  next
    case False
    then have e: "toString n radix = toString (n div 10) radix @ [digit_char (n mod 10)]"
      using "1.prems" by (subst toString.simps) simp
    have ih: "toString (n div 10) radix \<noteq> [] \<and> list_all (is_digit 10) (toString (n div 10) radix)
      \<and> digits_value 10 (toString (n div 10) radix) = int (n div 10)
      \<and> CHR ''.'' \<notin> set (toString (n div 10) radix)"
      using "1.IH" "1.prems" False by simp
    have m: "n mod 10 < 10" by simp
    have dg: "is_digit 10 (digit_char (n mod 10))"
      using digit_char_value [OF m] by (simp add: is_digit_def)
    have "int (n div 10 * 10 + n mod 10) = int n" by simp
    then have ar: "int (n div 10) * 10 + int (n mod 10) = int n"
      by (simp only: of_nat_add of_nat_mult of_nat_numeral)
    from digit_char_value [OF m] ih dg ar show ?thesis
      by (auto simp: e digits_value_snoc)
  qed
qed

lemma split_js_none:
  "c \<notin> set xs \<Longrightarrow> split_js [c] cur xs = [rev cur @ xs]"
  by (induction xs arbitrary: cur) auto

lemma split_js_first:
  "c \<notin> set xs \<Longrightarrow> split_js [c] cur (xs @ c # rest) = (rev cur @ xs) # split_js [c] [] rest"
  by (induction xs arbitrary: cur) auto

lemma split_four:
  assumes "c \<notin> set s1" "c \<notin> set s2" "c \<notin> set s3" "c \<notin> set s4"
  shows "split (join [s1, s2, s3, s4] [c]) [c] = [s1, s2, s3, s4]"
proof -
  have "split_js [c] [] (s1 @ c # s2 @ c # s3 @ c # s4) = [s1, s2, s3, s4]"
    using assms by (simp add: split_js_first split_js_none)
  then show ?thesis by (simp add: split_def)
qed

lemma octets_recompose:
  fixes k :: int
  assumes "0 \<le> k" and "k < 2 ^ 32"
  shows "((k div 2 ^ 24 mod 256 * 256 + k div 2 ^ 16 mod 256) * 256 + k div 2 ^ 8 mod 256) * 256
           + k mod 256 = k"
proof -
  define a where "a = k div 256"
  define b where "b = a div 256"
  define c where "c = b div 256"
  have d8: "k div 2 ^ 8 = a" by (simp add: a_def)
  have d16: "k div 2 ^ 16 = b"
    unfolding b_def a_def by (simp add: zdiv_zmult2_eq)
  have d24: "k div 2 ^ 24 = c"
    unfolding c_def b_def a_def by (simp add: zdiv_zmult2_eq)
  have "0 \<le> c" "c < 256"
    using assms unfolding d24 [symmetric] by simp_all
  then have cm: "c mod 256 = c" by simp
  have 1: "c * 256 + b mod 256 = b" unfolding c_def by simp
  have 2: "b * 256 + a mod 256 = a" unfolding b_def by simp
  have 3: "a * 256 + k mod 256 = k" unfolding a_def by simp
  show ?thesis
    unfolding d8 d16 d24 cm 1 2 3 ..
qed

lemma parseInt_toString:
  assumes "0 \<le> m" and "m < 256"
  shows "parseInt (toString (nat m) 10) 10 = Finite m"
proof -
  have t: "toString (nat m) 10 \<noteq> []" "list_all (is_digit 10) (toString (nat m) 10)"
    "digits_value 10 (toString (nat m) 10) = int (nat m)"
    using toString_10 [of 10 "nat m"] by simp_all
  have "digits_value 10 (toString (nat m) 10) < 2 ^ 53"
    using assms t(3) by simp
  from parseInt_digits [OF t(1,2) this] t(3) assms show ?thesis by simp
qed

lemma ipv4_roundtrip:
  assumes "0 \<le> k" and "k < 2 ^ 32"
  shows "ipv4ToBig (bigToIpv4 k) = Inr k"
proof -
  define n1 where "n1 = k div 2 ^ 24 mod 256"
  define n2 where "n2 = k div 2 ^ 16 mod 256"
  define n3 where "n3 = k div 2 ^ 8 mod 256"
  define n4 where "n4 = k mod 256"
  have b: "0 \<le> n1" "n1 < 256" "0 \<le> n2" "n2 < 256" "0 \<le> n3" "n3 < 256" "0 \<le> n4" "n4 < 256"
    by (simp_all add: n1_def n2_def n3_def n4_def)
  have nd: "CHR ''.'' \<notin> set (toString (nat n1) 10)" "CHR ''.'' \<notin> set (toString (nat n2) 10)"
    "CHR ''.'' \<notin> set (toString (nat n3) 10)" "CHR ''.'' \<notin> set (toString (nat n4) 10)"
    using toString_10 [of 10] by simp_all
  have "bigToIpv4 k =
      join [toString (nat n1) 10, toString (nat n2) 10, toString (nat n3) 10, toString (nat n4) 10] ''.''"
    by (simp only: bigToIpv4_def n1_def n2_def n3_def n4_def)
  then have sp: "split (bigToIpv4 k) ''.'' =
      [toString (nat n1) 10, toString (nat n2) 10, toString (nat n3) 10, toString (nat n4) 10]"
    using split_four [OF nd] by simp
  have "ipv4ToBig (bigToIpv4 k) = Inr (((n1 * 256 + n2) * 256 + n3) * 256 + n4)"
    unfolding ipv4ToBig_def sp
    by (simp add: parseInt_toString [OF b(1,2)] parseInt_toString [OF b(3,4)]
        parseInt_toString [OF b(5,6)] parseInt_toString [OF b(7,8)] BigInt_def)
  moreover have "((n1 * 256 + n2) * 256 + n3) * 256 + n4 = k"
    unfolding n1_def n2_def n3_def n4_def by (rule octets_recompose [OF assms])
  ultimately show ?thesis by simp
qed

lemma toBig_all_member:
  "toBig_all v xs = Inr used \<Longrightarrow> x \<in> set xs \<Longrightarrow> \<exists>vx. toBig v x = Inr vx \<and> vx \<in> set used"
proof (induction xs arbitrary: used)
  case Nil
  then show ?case by simp
next
  case (Cons y ys)
  from Cons.prems(1) obtain vy vs where y: "toBig v y = Inr vy" and ys: "toBig_all v ys = Inr vs"
    and u: "used = vy # vs"
    by (auto split: sum.splits)
  show ?case
  proof (cases "x = y")
    case True
    with y u show ?thesis by auto
  next
    case False
    with Cons.prems(2) have "x \<in> set ys" by simp
    from Cons.IH [OF ys this] u show ?thesis by auto
  qed
qed

lemma ipv4_range_text:
  assumes "isIP s = 4" "isIP e = 4" "toBig 4 s = Inr startBig" "toBig 4 e = Inr endBig"
    and "startBig \<le> k" "k \<le> endBig"
  shows "toBig 4 (bigToIp 4 k) = Inr k"
proof -
  from assms(1,3) have "0 \<le> startBig"
    using isIPv4_value [of s] by (auto simp: isIP_4 toBig_def)
  moreover from assms(2,4) have "endBig < 2 ^ 32"
    using isIPv4_value [of e] by (auto simp: isIP_4 toBig_def)
  ultimately have "0 \<le> k" "k < 2 ^ 32" using assms(5,6) by simp_all
  then show ?thesis by (simp add: toBig_def bigToIp_def ipv4_roundtrip)
qed

text \<open>
  What the scan computes, in the integers the code converts the addresses to.  Let the
  range have valid ends of one family that convert to \<open>startBig \<le> endBig\<close>, and let the
  gateway, the DNS server and the valid addresses of the host interfaces on the network
  convert under that family, to \<open>used\<close>.  Then \<^verbatim>\<open>getNextIpAddress\<close> returns the text of the
  lowest value of the range that is not in \<open>used\<close> (with the subnet's prefix length when it
  has one), and throws \<^verbatim>\<open>No available static IP\<close> when every value of the range is in
  \<open>used\<close>.  For IPv4 the text reads back as the value.
\<close>

lemma getNextIpAddress_scans_range:
  assumes "find (\<lambda>n. name n = networkName) (networks inventory) = Some netCfg"
    and "isIP (range_start (static_range netCfg)) = version"
    and "isIP (range_end (static_range netCfg)) = version"
    and "version \<noteq> 0"
    and "toBig version (range_start (static_range netCfg)) = Inr startBig"
    and "toBig version (range_end (static_range netCfg)) = Inr endBig"
    and "startBig \<le> endBig"
    and "toBig_all version (used_addresses netCfg networkName inventory) = Inr used"
  shows "(\<forall>s. getNextIpAddress networkName inventory = Inr s \<longleftrightarrow>
            (\<exists>k. s = with_prefix (subnet netCfg) (bigToIp version k)
                 \<and> startBig \<le> k \<and> k \<le> endBig \<and> k \<notin> set used
                 \<and> (\<forall>j. startBig \<le> j \<and> j < k \<longrightarrow> j \<in> set used)))
       \<and> ((\<exists>k. startBig \<le> k \<and> k \<le> endBig \<and> k \<notin> set used) \<longrightarrow>
            (\<exists>s. getNextIpAddress networkName inventory = Inr s))
       \<and> ((\<forall>k. startBig \<le> k \<and> k \<le> endBig \<longrightarrow> k \<in> set used) \<longrightarrow>
            getNextIpAddress networkName inventory = Inl (NoAvailableIp networkName))
       \<and> (version = 4 \<longrightarrow>
            (\<forall>k. startBig \<le> k \<and> k \<le> endBig \<longrightarrow>
                 toBig version (bigToIp version k) = Inr k
                 \<and> (k \<notin> set used \<longrightarrow>
                      bigToIp version k \<notin> set (used_addresses netCfg networkName inventory))))"
proof -
  note g = getNextIpAddress_scan [OF assms]
  have a: "\<forall>s. getNextIpAddress networkName inventory = Inr s \<longleftrightarrow>
            (\<exists>k. s = with_prefix (subnet netCfg) (bigToIp version k)
                 \<and> startBig \<le> k \<and> k \<le> endBig \<and> k \<notin> set used
                 \<and> (\<forall>j. startBig \<le> j \<and> j < k \<longrightarrow> j \<in> set used))"
  proof (intro allI iffI)
    fix s
    assume "getNextIpAddress networkName inventory = Inr s"
    with g obtain k where k: "scan_range used startBig endBig = Some k"
      and s: "s = with_prefix (subnet netCfg) (bigToIp version k)"
      by (cases "scan_range used startBig endBig") auto
    from k have "startBig \<le> k \<and> k \<le> endBig \<and> k \<notin> set used
                 \<and> (\<forall>j. startBig \<le> j \<and> j < k \<longrightarrow> j \<in> set used)"
      using scan_range_Some_iff [of used startBig endBig k] by blast
    with s show "\<exists>k. s = with_prefix (subnet netCfg) (bigToIp version k)
                 \<and> startBig \<le> k \<and> k \<le> endBig \<and> k \<notin> set used
                 \<and> (\<forall>j. startBig \<le> j \<and> j < k \<longrightarrow> j \<in> set used)"
      by blast
  next
    fix s
    assume "\<exists>k. s = with_prefix (subnet netCfg) (bigToIp version k)
                 \<and> startBig \<le> k \<and> k \<le> endBig \<and> k \<notin> set used
                 \<and> (\<forall>j. startBig \<le> j \<and> j < k \<longrightarrow> j \<in> set used)"
    then obtain k where s: "s = with_prefix (subnet netCfg) (bigToIp version k)"
      and k: "startBig \<le> k \<and> k \<le> endBig \<and> k \<notin> set used
                 \<and> (\<forall>j. startBig \<le> j \<and> j < k \<longrightarrow> j \<in> set used)"
      by blast
    from k have "scan_range used startBig endBig = Some k"
      unfolding scan_range_Some_iff by blast
    with g s show "getNextIpAddress networkName inventory = Inr s" by simp
  qed
  have b: "(\<exists>k. startBig \<le> k \<and> k \<le> endBig \<and> k \<notin> set used) \<longrightarrow>
            (\<exists>s. getNextIpAddress networkName inventory = Inr s)"
  proof
    assume "\<exists>k. startBig \<le> k \<and> k \<le> endBig \<and> k \<notin> set used"
    then have "scan_range used startBig endBig \<noteq> None"
      unfolding scan_range_None_iff by blast
    then obtain k where "scan_range used startBig endBig = Some k" by blast
    with g show "\<exists>s. getNextIpAddress networkName inventory = Inr s" by simp
  qed
  have c: "(\<forall>k. startBig \<le> k \<and> k \<le> endBig \<longrightarrow> k \<in> set used) \<longrightarrow>
            getNextIpAddress networkName inventory = Inl (NoAvailableIp networkName)"
  proof
    assume "\<forall>k. startBig \<le> k \<and> k \<le> endBig \<longrightarrow> k \<in> set used"
    then have "scan_range used startBig endBig = None"
      by (simp only: scan_range_None_iff)
    with g show "getNextIpAddress networkName inventory = Inl (NoAvailableIp networkName)"
      by simp
  qed
  have d: "version = 4 \<longrightarrow>
            (\<forall>k. startBig \<le> k \<and> k \<le> endBig \<longrightarrow>
                 toBig version (bigToIp version k) = Inr k
                 \<and> (k \<notin> set used \<longrightarrow>
                      bigToIp version k \<notin> set (used_addresses netCfg networkName inventory)))"
  proof (intro impI allI conjI)
    fix k
    assume v: "version = 4" and r: "startBig \<le> k \<and> k \<le> endBig"
    from r have r1: "startBig \<le> k" and r2: "k \<le> endBig" by simp_all
    show t: "toBig version (bigToIp version k) = Inr k"
      using ipv4_range_text [OF assms(2,3,5,6) [unfolded v] r1 r2] v by simp
    assume n: "k \<notin> set used"
    show "bigToIp version k \<notin> set (used_addresses netCfg networkName inventory)"
    proof
      assume "bigToIp version k \<in> set (used_addresses netCfg networkName inventory)"
      from toBig_all_member [OF assms(8) this] t n show False by auto
    qed
  qed
  from a b c d show ?thesis by blast
qed


lemma e8: "(8::nat) = Suc (Suc (Suc (Suc (Suc (Suc (Suc (Suc 0)))))))"
  by simp

lemma dotted_eval:
  "isIP ''::ffff:0:10'' = 6"
  "isIP ''::ffff:0.0.0.16'' = 6"
  "isIP ''fe80::1'' = 6"
  "toBig 6 ''::ffff:0:10'' = Inr 281470681743376"
  "toBig 6 ''::ffff:0.0.0.16'' = Inr 4294901760"
  "toBig 6 ''::ffff:0:1'' = Inr 281470681743361"
  "prefixLen ''::ffff:0:0/112'' = Some ''112''"
  by code_simp+

lemma bigToIp_dotted: "bigToIp 6 281470681743376 = ''0:0:0:0:0:ffff:0:10''"
  unfolding bigToIp_def bigToIpv6_def e8 bigToIpv6_loop.simps
  by (simp add: toString.simps digit_char_def)

text \<open>
  C5.  \<^verbatim>\<open>getNextIpAddress\<close> converts the gateway, the DNS server and the host addresses with
  the family of the range and does not look at theirs.  On the IPv4 range 10.0.0.2 to
  10.0.0.4 with gateway \<^verbatim>\<open>fe80::1\<close>, DNS server 10.0.0.1 and no host, the lowest address
  that is none of them is 10.0.0.2; the call throws a \<^verbatim>\<open>RangeError\<close>.  On the IPv6 range
  of the one address \<^verbatim>\<open>::ffff:0:10\<close>, with that address, written \<^verbatim>\<open>::ffff:0.0.0.16\<close>,
  as gateway and DNS server, every address of the range is used; the call reads the dotted
  part as 0 and returns the gateway's own address.  In scenario C it fails with no
  capacity, as claimed.
\<close>

theorem getNextIpAddress_family_unchecked:
  "networks mixed_families
     = [\<lparr>name = ''lan'', subnet = ''10.0.0.0/24'', gateway = ''fe80::1'', dns = ''10.0.0.1'',
         static_range = \<lparr>range_start = ''10.0.0.2'', range_end = ''10.0.0.4''\<rparr>\<rparr>]
   \<and> hosts mixed_families = []
   \<and> isIP ''10.0.0.2'' = 4 \<and> isIP ''10.0.0.4'' = 4 \<and> isIP ''10.0.0.1'' = 4 \<and> isIP ''fe80::1'' = 6
   \<and> getNextIpAddress ''lan'' mixed_families = Inl RangeError
   \<and> networks dotted_gateway
     = [\<lparr>name = ''lan6'', subnet = ''::ffff:0:0/112'', gateway = ''::ffff:0.0.0.16'',
         dns = ''::ffff:0.0.0.16'',
         static_range = \<lparr>range_start = ''::ffff:0:10'', range_end = ''::ffff:0:10''\<rparr>\<rparr>]
   \<and> hosts dotted_gateway = []
   \<and> isIP ''::ffff:0:10'' = 6 \<and> isIP ''::ffff:0.0.0.16'' = 6
   \<and> toBig 6 ''::ffff:0:10'' = Inr 281470681743376
   \<and> toBig 6 ''::ffff:0.0.0.16'' = Inr 4294901760
   \<and> getNextIpAddress ''lan6'' dotted_gateway = Inr ''0:0:0:0:0:ffff:0:10/112''
   \<and> getNextIpAddress ''lan'' scenario_C = Inl (NoAvailableIp ''lan'')"
proof -
  have m: "networks mixed_families
     = [\<lparr>name = ''lan'', subnet = ''10.0.0.0/24'', gateway = ''fe80::1'', dns = ''10.0.0.1'',
         static_range = \<lparr>range_start = ''10.0.0.2'', range_end = ''10.0.0.4''\<rparr>\<rparr>]"
    "hosts mixed_families = []"
    by (simp_all add: mixed_families_def)
  have v4: "isIP ''10.0.0.2'' = 4" "isIP ''10.0.0.4'' = 4" "isIP ''10.0.0.1'' = 4"
    by (simp_all add: ip_eval)
  have d: "networks dotted_gateway
     = [\<lparr>name = ''lan6'', subnet = ''::ffff:0:0/112'', gateway = ''::ffff:0.0.0.16'',
         dns = ''::ffff:0.0.0.16'',
         static_range = \<lparr>range_start = ''::ffff:0:10'', range_end = ''::ffff:0:10''\<rparr>\<rparr>]"
    "hosts dotted_gateway = []"
    by (simp_all add: dotted_gateway_def lan6_def)
  have g: "getNextIpAddress ''lan6'' dotted_gateway = Inr ''0:0:0:0:0:ffff:0:10/112''"
    by (simp add: getNextIpAddress_def d used_addresses_def dotted_eval bigToIp_dotted
        scan_range.simps Let_def)
  from m v4 d g dotted_eval(1-5) mixed_eval scenario_C_eval show ?thesis
    by (intro conjI)
qed
section \<open>The ledger's invariant\<close>






















end
